theory Spec2Isabelle
  imports Complex_Main
begin

section \<open>The rate-limited task queue (class RateLimiter of bot.js)\<close>

text \<open>
  Time is the wall clock in milliseconds, a rational number: the backoff of the
  source is a JavaScript number that is multiplied by 1.5, so it leaves the
  integers (3000, 4500, 6750, 10125, 15187.5, ...). Every value that occurs is
  3000 times a power of 1.5 with exponent at most 5, which a double holds exactly.
  A timer of \<open>d\<close> milliseconds advances the clock by \<open>d\<close>; \<open>Date.now()\<close> reads it.

  A task is an asynchronous operation without arguments. Its model gives, for
  the \<open>n\<close>-th invocation (counted from 0), how long the invocation runs and how it
  ends: \<open>Inl e\<close> when it raises \<open>e\<close>, \<open>Inr r\<close> when it returns \<open>r\<close>. The queue invokes
  the task of an item once per attempt and increments \<open>retries\<close> after every failed
  one, so the invocation to come is always number \<open>retries\<close>.
\<close>

type_synonym msec = rat

type_synonym ('e, 'r) task = "nat \<Rightarrow> msec \<times> ('e + 'r)"

text \<open>The object pushed by \<open>add\<close>; \<open>promise\<close> stands for its resolve/reject pair.\<close>

record ('e, 'r) item =
  task :: "('e, 'r) task"
  promise :: nat
  retries :: nat
  backoffTime :: msec
  startTime :: msec

text \<open>What the loop did after one attempt (a record kept for the proofs only).\<close>

datatype verdict = Resolve | Reject | Retry msec

text \<open>
  The fields of the class, and beside them: \<open>clock\<close>, the time at which the loop makes
  its next call of \<open>process\<close>; \<open>spins\<close>, the number of \<open>Math.random()\<close> draws of the
  loop so far; \<open>issued\<close>, the number of promises handed out; \<open>settled\<close>, the promises
  settled so far with the time and the value; \<open>attempts\<close>, one entry per invocation
  of a task: the promise, the time since its enqueue at which the invocation
  ended, and the verdict.
\<close>

record ('e, 'r) limiter =
  queue :: "('e, 'r) item list"
  processing :: bool
  interval :: msec
  clock :: msec
  spins :: nat
  issued :: nat
  settled :: "(nat \<times> msec \<times> ('e + 'r)) list"
  attempts :: "(nat \<times> msec \<times> verdict) list"

definition maxRetries :: nat where
  "maxRetries = 5"

definition backoffMultiplier :: msec where
  "backoffMultiplier = 3 / 2"

definition timeout :: msec where
  "timeout = 30000"

text \<open>\<open>new RateLimiter(interval)\<close>; the program's only instance has interval 3000.\<close>

definition new_limiter :: "msec \<Rightarrow> ('e, 'r) limiter" where
  "new_limiter iv =
     \<lparr>queue = [], processing = False, interval = iv, clock = 0, spins = 0,
      issued = 0, settled = [], attempts = []\<rparr>"

text \<open>
  \<open>add(task)\<close> called at time \<open>t\<close>: the item goes to the end of the queue; when the
  loop is idle, \<open>process()\<close> is started, which at once marks the loop as processing
  and begins its first iteration at \<open>t\<close>. The promise returned is \<open>issued L\<close>.
\<close>

definition add :: "msec \<Rightarrow> ('e, 'r) task \<Rightarrow> ('e, 'r) limiter \<Rightarrow> ('e, 'r) limiter" where
  "add t tsk L =
     (let L1 = L\<lparr>queue := queue L @
                  [\<lparr>task = tsk, promise = issued L, retries = 0,
                    backoffTime = interval L, startTime = t\<rparr>],
                issued := Suc (issued L)\<rparr>
      in if \<not> processing L then L1\<lparr>processing := True, clock := t\<rparr> else L1)"

text \<open>
  After a success the item that is now first gets its backoff reset to the
  interval (lines 62 to 64 of bot.js).
\<close>

fun reset_front :: "msec \<Rightarrow> ('e, 'r) item list \<Rightarrow> ('e, 'r) item list" where
  "reset_front iv [] = []"
| "reset_front iv (x # xs) = x\<lparr>backoffTime := iv\<rparr> # xs"

text \<open>
  One call of \<open>process()\<close> up to its recursive call: the first item of the queue is
  attempted; the three waits (the task itself, the backoff of a retry, the
  interval plus jitter) advance the clock. \<open>rnd n\<close> is the value of the \<open>n\<close>-th
  \<open>Math.random()\<close> of the loop.
\<close>

definition process :: "(nat \<Rightarrow> rat) \<Rightarrow> ('e, 'r) limiter \<Rightarrow> ('e, 'r) limiter" where
  "process rnd L =
     (case queue L of
        [] \<Rightarrow> L\<lparr>processing := False\<rparr>
      | item # rest \<Rightarrow>
          (let (dur, res) = task item (retries item);
               t = clock L + dur;
               L1 = L\<lparr>processing := True\<rparr>;
               (L2, t2) =
                 (case res of
                    Inr result \<Rightarrow>
                      (L1\<lparr>settled := settled L1 @ [(promise item, t, Inr result)],
                          queue := reset_front (interval L1) rest,
                          attempts := attempts L1 @ [(promise item, t - startTime item, Resolve)]\<rparr>,
                       t)
                  | Inl error \<Rightarrow>
                      (let item1 = item\<lparr>retries := retries item + 1\<rparr>
                       in if retries item1 \<ge> maxRetries \<or> t - startTime item1 > timeout
                          then (L1\<lparr>settled := settled L1 @ [(promise item1, t, Inl error)],
                                   queue := rest,
                                   attempts := attempts L1 @
                                     [(promise item1, t - startTime item1, Reject)]\<rparr>,
                                t)
                          else (let item2 = item1\<lparr>backoffTime :=
                                                backoffTime item1 * backoffMultiplier\<rparr>
                                in (L1\<lparr>queue := rest @ [item2],
                                       attempts := attempts L1 @
                                         [(promise item2, t - startTime item2,
                                           Retry (backoffTime item2))]\<rparr>,
                                    t + backoffTime item2))));
               jitter = rnd (spins L) * 1000
           in L2\<lparr>clock := t2 + interval L + jitter, spins := Suc (spins L)\<rparr>))"

text \<open>
  The loop: \<open>process\<close> calls itself until it finds the queue empty. The weight of
  the queue decreases with every attempt, so the loop ends when every task ends.
\<close>

definition weight :: "('e, 'r) item list \<Rightarrow> nat" where
  "weight q = sum_list (map (\<lambda>i. Suc (maxRetries - retries i)) q)"

lemma weight_reset_front: "weight (reset_front iv q) = weight q"
  by (cases q) (simp_all add: weight_def)

lemma process_weight:
  "queue L \<noteq> [] \<Longrightarrow> weight (queue (process rnd L)) < weight (queue L)"
  by (cases "queue L")
     (auto simp: process_def Let_def weight_def weight_reset_front [unfolded weight_def]
           split: prod.splits sum.splits)

function drain :: "(nat \<Rightarrow> rat) \<Rightarrow> ('e, 'r) limiter \<Rightarrow> ('e, 'r) limiter" where
  "drain rnd L = (if queue L = [] then L else drain rnd (process rnd L))"
  by pat_completeness auto
termination
  by (relation "measure (\<lambda>(rnd, L). weight (queue L))") (auto simp: process_weight)

declare drain.simps [simp del]


text \<open>
  Several producers: a schedule of events, each either a call of \<open>add\<close> (by any
  producer, at any time) or one iteration of the loop. A call of \<open>add\<close> that arrives
  while the loop awaits the task stands before the iteration in the schedule, one
  that arrives during the waits stands after it.
\<close>

datatype ('e, 'r) event = Submit msec "('e, 'r) task" | Spin

fun apply_event :: "(nat \<Rightarrow> rat) \<Rightarrow> ('e, 'r) event \<Rightarrow> ('e, 'r) limiter \<Rightarrow> ('e, 'r) limiter" where
  "apply_event rnd (Submit t tsk) L = add t tsk L"
| "apply_event rnd Spin L = process rnd L"

fun run :: "(nat \<Rightarrow> rat) \<Rightarrow> ('e, 'r) event list \<Rightarrow> ('e, 'r) limiter \<Rightarrow> ('e, 'r) limiter" where
  "run rnd [] L = L"
| "run rnd (ev # evs) L = run rnd evs (apply_event rnd ev L)"

fun spin_count :: "('e, 'r) event list \<Rightarrow> nat" where
  "spin_count [] = 0"
| "spin_count (Submit t tsk # evs) = spin_count evs"
| "spin_count (Spin # evs) = Suc (spin_count evs)"

text \<open>The promises in the order in which their tasks were invoked.\<close>

definition served :: "('e, 'r) limiter \<Rightarrow> nat list" where
  "served L = map fst (attempts L)"

section \<open>The grouped file delivery (function sendFilesInGroups of bot.js)\<close>

text \<open>
  A file reference is an object with a \<open>path\<close>; an entry of the list that is \<open>null\<close>
  or \<open>undefined\<close> is \<open>None\<close>, and reading its \<open>path\<close> raises a \<open>TypeError\<close>.
\<close>

record fileRef =
  path :: string

datatype error = TypeError | ApiError nat

text \<open>
  The texts handed to \<open>ctx.reply\<close>: the progress line with the number sent and the
  total; the failure line with the ordinal of the group; the summary with the
  number sent, the number failed, the number of groups and whether the hint to
  try again is appended.
\<close>

datatype notification = Progress nat nat | GroupFailed nat | Summary nat nat nat bool

text \<open>
  The collaborators. \<open>sendMediaGroup n\<close> is the duration and the end of the \<open>n\<close>-th
  call of \<open>ctx.telegram.sendMediaGroup\<close>, \<open>replyResult n\<close> that of the \<open>n\<close>-th call of
  \<open>ctx.reply\<close> (\<open>None\<close>: it returns, \<open>Some e\<close>: it raises \<open>e\<close>); \<open>unlinkRaises p\<close> holds when
  \<open>fs.unlinkSync(p)\<close> raises on the existing path \<open>p\<close>; \<open>loopRandom\<close> and \<open>retryRandom\<close>
  are the values of \<open>Math.random()\<close> drawn by the queue and by the retry loop of the
  delivery.
\<close>

record env =
  sendMediaGroup :: "nat \<Rightarrow> msec \<times> error option"
  replyResult :: "nat \<Rightarrow> msec \<times> error option"
  unlinkRaises :: "string \<Rightarrow> bool"
  loopRandom :: "nat \<Rightarrow> rat"
  retryRandom :: "nat \<Rightarrow> rat"

text \<open>
  The state outside the function: the clock, the module's \<open>rateLimiter\<close>, the paths
  that exist in local storage, and records of what was done: the number of calls of
  \<open>sendMediaGroup\<close>, the notifications handed to \<open>ctx.reply\<close>, the paths removed by
  \<open>unlinkSync\<close>, the waits of the retry loop, the number of its random draws, and the
  groups whose cleanup has run.
\<close>

record world =
  now :: msec
  rateLimiter :: "(error, unit) limiter"
  existing :: "string set"
  sendCalls :: nat
  replies :: "notification list"
  unlinked :: "string list"
  retryWaits :: "msec list"
  draws :: nat
  groups :: "fileRef option list list"

record outcome =
  successCount :: nat
  failedFiles :: "fileRef option list"

definition groupSize :: nat where
  "groupSize = 10"

definition groupMaxRetries :: nat where
  "groupMaxRetries = 5"

definition sleep :: "msec \<Rightarrow> world \<Rightarrow> world" where
  "sleep d w = w\<lparr>now := now w + d\<rparr>"

text \<open>\<open>fileGroup.map(file => ({type: 'document', media: {source: file.path}}))\<close>\<close>

fun mediaGroup_of :: "fileRef option list \<Rightarrow> error + string list" where
  "mediaGroup_of [] = Inr []"
| "mediaGroup_of (None # fs) = Inl TypeError"
| "mediaGroup_of (Some f # fs) =
     (case mediaGroup_of fs of Inl e \<Rightarrow> Inl e | Inr ps \<Rightarrow> Inr (path f # ps))"

text \<open>
  The task handed to the queue: wait 500 ms, then call \<open>sendMediaGroup\<close>. Its \<open>n\<close>-th
  invocation is call number \<open>base + n\<close> of \<open>sendMediaGroup\<close>.
\<close>

definition send_task :: "env \<Rightarrow> nat \<Rightarrow> (error, unit) task" where
  "send_task E base n =
     (case sendMediaGroup E (base + n) of
        (d, r) \<Rightarrow> (500 + d, case r of None \<Rightarrow> Inr () | Some e \<Rightarrow> Inl e))"

text \<open>
  When \<open>add\<close> is called at time \<open>t\<close> and the timer of the loop's last iteration has
  fired by then, the loop has found the queue empty and is idle.
\<close>

definition wake :: "(nat \<Rightarrow> rat) \<Rightarrow> msec \<Rightarrow> ('e, 'r) limiter \<Rightarrow> ('e, 'r) limiter" where
  "wake rnd t L = (if processing L \<and> queue L = [] \<and> clock L \<le> t then process rnd L else L)"

text \<open>
  \<open>await rateLimiter.add(task)\<close> when the delivery is the only producer: the item is
  enqueued, the loop runs until the queue is empty again, and the caller resumes at
  the time the promise was settled, with its value. \<open>None\<close> means that the promise
  is never settled.
\<close>

definition submit :: "env \<Rightarrow> world \<Rightarrow> ((error + unit) \<times> world) option" where
  "submit E w =
     (let L0 = wake (loopRandom E) (now w) (rateLimiter w);
          p = issued L0;
          L1 = drain (loopRandom E) (add (now w) (send_task E (sendCalls w)) L0)
      in case find (\<lambda>(q, t, r). q = p) (settled L1) of
           None \<Rightarrow> None
         | Some (q, t, r) \<Rightarrow>
             Some (r, w\<lparr>now := t, rateLimiter := L1,
                        sendCalls := sendCalls w +
                          length (filter (\<lambda>(q, el, v). q = p) (attempts L1))\<rparr>))"

text \<open>
  The \<open>while (!success && retryCount < maxRetries)\<close> loop of one group; the result is
  the final value of \<open>success\<close>.
\<close>

function retry_loop :: "env \<Rightarrow> nat \<Rightarrow> msec \<Rightarrow> world \<Rightarrow> (bool \<times> world) option" where
  "retry_loop E retryCount backoff w =
     (if retryCount < groupMaxRetries
      then (case submit E w of
              None \<Rightarrow> None
            | Some (Inr u, w1) \<Rightarrow> Some (True, w1)
            | Some (Inl error, w1) \<Rightarrow>
                (let backoff1 = backoff * (3 / 2);
                     jitter = retryRandom E (draws w1) * 1000;
                     w2 = sleep (backoff1 + jitter)
                            (w1\<lparr>draws := Suc (draws w1),
                                retryWaits := retryWaits w1 @ [backoff1 + jitter]\<rparr>)
                 in retry_loop E (Suc retryCount) backoff1 w2))
      else Some (False, w))"
  by pat_completeness auto
termination
  by (relation "measure (\<lambda>(E, retryCount, backoff, w). groupMaxRetries - retryCount)") auto

declare retry_loop.simps [simp del]

definition reply :: "env \<Rightarrow> notification \<Rightarrow> world \<Rightarrow> error option \<times> world" where
  "reply E msg w =
     (case replyResult E (length (replies w)) of
        (d, r) \<Rightarrow> (r, w\<lparr>replies := replies w @ [msg], now := now w + d\<rparr>))"

text \<open>
  The \<open>finally\<close> block: every file of the group that exists is unlinked; an error of
  \<open>unlinkSync\<close>, or of reading the path of a missing entry, is logged and dropped.
\<close>

fun cleanup :: "env \<Rightarrow> fileRef option list \<Rightarrow> world \<Rightarrow> world" where
  "cleanup E [] w = w"
| "cleanup E (None # fs) w = cleanup E fs w"
| "cleanup E (Some f # fs) w =
     cleanup E fs
       (if path f \<in> existing w
        then (if unlinkRaises E (path f) then w
              else w\<lparr>existing := existing w - {path f}, unlinked := unlinked w @ [path f]\<rparr>)
        else w)"

text \<open>The \<open>try\<close> block of one group with its \<open>catch\<close>.\<close>

definition try_group ::
  "env \<Rightarrow> fileRef option list \<Rightarrow> nat \<Rightarrow> fileRef option list \<Rightarrow> outcome \<times> world
     \<Rightarrow> (outcome \<times> world) option" where
  "try_group E files i fileGroup = (\<lambda>(acc, w).
     case mediaGroup_of fileGroup of
       Inl error \<Rightarrow> Some (acc\<lparr>failedFiles := failedFiles acc @ fileGroup\<rparr>, w)
     | Inr mediaGroup \<Rightarrow>
         (case retry_loop E 0 3000 w of
            None \<Rightarrow> None
          | Some (success, w1) \<Rightarrow>
              if success
              then (let acc1 = acc\<lparr>successCount := successCount acc + length fileGroup\<rparr>
                    in if successCount acc1 mod 30 = 0 \<or> i + groupSize \<ge> length files
                       then (case reply E (Progress (successCount acc1) (length files)) w1 of
                               (None, w2) \<Rightarrow> Some (acc1, w2)
                             | (Some error, w2) \<Rightarrow>
                                 Some (acc1\<lparr>failedFiles := failedFiles acc1 @ fileGroup\<rparr>, w2))
                       else Some (acc1, w1))
              else (let acc1 = acc\<lparr>failedFiles := failedFiles acc @ fileGroup\<rparr>
                    in case reply E (GroupFailed (i div groupSize + 1)) w1 of
                         (None, w2) \<Rightarrow> Some (acc1, w2)
                       | (Some error, w2) \<Rightarrow>
                           Some (acc1\<lparr>failedFiles := failedFiles acc1 @ fileGroup\<rparr>, w2))))"

text \<open>One iteration of the \<open>for\<close> loop: the group, its \<open>finally\<close> block, the wait of 3000 ms.\<close>

definition send_group ::
  "env \<Rightarrow> fileRef option list \<Rightarrow> nat \<Rightarrow> outcome \<times> world \<Rightarrow> (outcome \<times> world) option" where
  "send_group E files i st =
     (let fileGroup = take groupSize (drop i files)
      in case try_group E files i fileGroup st of
           None \<Rightarrow> None
         | Some (acc, w) \<Rightarrow>
             Some (acc, sleep 3000 ((cleanup E fileGroup w)\<lparr>groups := groups w @ [fileGroup]\<rparr>)))"

function group_loop ::
  "env \<Rightarrow> fileRef option list \<Rightarrow> nat \<Rightarrow> outcome \<times> world \<Rightarrow> (outcome \<times> world) option" where
  "group_loop E files i st =
     (if i < length files
      then (case send_group E files i st of
              None \<Rightarrow> None
            | Some st1 \<Rightarrow> group_loop E files (i + groupSize) st1)
      else Some st)"
  by pat_completeness auto
termination
  by (relation "measure (\<lambda>(E, files, i, st). length files - i)") (auto simp: groupSize_def)

declare group_loop.simps [simp del]

text \<open>
  The function: \<open>Inr\<close> the object it returns, \<open>Inl\<close> the error it rethrows; \<open>None\<close> when
  it never returns.
\<close>

definition sendFilesInGroups ::
  "env \<Rightarrow> fileRef option list \<Rightarrow> world \<Rightarrow> ((error + outcome) \<times> world) option" where
  "sendFilesInGroups E files w =
     (case group_loop E files 0 (\<lparr>successCount = 0, failedFiles = []\<rparr>, sleep 1000 w) of
        None \<Rightarrow> None
      | Some (acc, w1) \<Rightarrow>
          (case reply E (Summary (successCount acc) (length (failedFiles acc))
                           (nat \<lceil>rat_of_nat (length files) / rat_of_nat groupSize\<rceil>)
                           (length (failedFiles acc) > 0)) w1 of
             (None, w2) \<Rightarrow> Some (Inr acc, w2)
           | (Some error, w2) \<Rightarrow> Some (Inl error, w2)))"


section \<open>Notions used in the statements\<close>

text \<open>
  The consecutive slices of a list from index \<open>i\<close> on, as the \<open>for\<close> loop of the
  delivery takes them; the paths of the file references of a list.
\<close>

function slices :: "'a list \<Rightarrow> nat \<Rightarrow> 'a list list" where
  "slices xs i =
     (if i < length xs then take groupSize (drop i xs) # slices xs (i + groupSize) else [])"
  by pat_completeness auto
termination
  by (relation "measure (\<lambda>(xs, i). length xs - i)") (auto simp: groupSize_def)

declare slices.simps [simp del]

definition paths :: "fileRef option list \<Rightarrow> string set" where
  "paths fs = {path f | f. Some f \<in> set fs}"











section \<open>Scenarios used as concrete inputs\<close>

text \<open>A task that runs for 31 seconds and returns, and one that raises at once, every time.\<close>

definition slow_task :: "(nat, unit) task" where
  "slow_task n = (31000, Inr ())"

definition failing_task :: "(nat, unit) task" where
  "failing_task n = (0, Inl n)"





text \<open>
  A world with a new queue of interval 3000 (the program's \<open>rateLimiter\<close>) and the
  given files in storage; a transport whose every send raises, with a jitter of
  500 ms in the retry loop.
\<close>

definition start :: "string set \<Rightarrow> world" where
  "start S =
     \<lparr>now = 0, rateLimiter = new_limiter 3000, existing = S, sendCalls = 0, replies = [],
      unlinked = [], retryWaits = [], draws = 0, groups = []\<rparr>"

definition failing_env :: env where
  "failing_env =
     \<lparr>sendMediaGroup = (\<lambda>n. (0, Some (ApiError n))), replyResult = (\<lambda>n. (0, None)),
      unlinkRaises = (\<lambda>p. False), loopRandom = (\<lambda>n. 0), retryRandom = (\<lambda>n. 1 / 2)\<rparr>"

text \<open>
  A transport and a reply sink that never raise; one whose first notification
  raises; one where \<open>unlinkSync\<close> raises on the path \<open>a\<close>; one whose first twenty sends
  raise (all attempts for the first group) and whose later sends succeed.
\<close>

definition ok_env :: env where
  "ok_env =
     \<lparr>sendMediaGroup = (\<lambda>n. (0, None)), replyResult = (\<lambda>n. (0, None)),
      unlinkRaises = (\<lambda>p. False), loopRandom = (\<lambda>n. 0), retryRandom = (\<lambda>n. 0)\<rparr>"

definition reply_raises_env :: env where
  "reply_raises_env =
     ok_env\<lparr>replyResult := (\<lambda>n. (0, if n = 0 then Some (ApiError 0) else None))\<rparr>"

definition unlink_raises_env :: env where
  "unlink_raises_env = ok_env\<lparr>unlinkRaises := (\<lambda>p. p = ''a'')\<rparr>"

definition first_group_fails_env :: env where
  "first_group_fails_env =
     ok_env\<lparr>sendMediaGroup := (\<lambda>n. (0, if n < 20 then Some (ApiError n) else None))\<rparr>"

text \<open>A transport whose every send raises, with a reply sink whose first notification raises.\<close>

definition failing_reply_raises_env :: env where
  "failing_reply_raises_env =
     failing_env\<lparr>replyResult := (\<lambda>n. (0, if n = 0 then Some (ApiError 0) else None))\<rparr>"

text \<open>Eleven file references, which make a group of ten and a group of one.\<close>

definition ten_files :: "fileRef option list" where
  "ten_files =
     [Some \<lparr>path = ''a''\<rparr>, Some \<lparr>path = ''b''\<rparr>, Some \<lparr>path = ''c''\<rparr>, Some \<lparr>path = ''d''\<rparr>,
      Some \<lparr>path = ''e''\<rparr>, Some \<lparr>path = ''f''\<rparr>, Some \<lparr>path = ''g''\<rparr>, Some \<lparr>path = ''h''\<rparr>,
      Some \<lparr>path = ''i''\<rparr>, Some \<lparr>path = ''j''\<rparr>]"

definition eleven_files :: "fileRef option list" where
  "eleven_files = ten_files @ [Some \<lparr>path = ''k''\<rparr>]"

text \<open>
  For running the delivery on a concrete input: the group functions restated with
  projections in place of patterns, and the definitions that a run unfolds.
\<close>

lemma send_group_eval:
  "send_group E files i st =
     (case try_group E files i (take groupSize (drop i files)) st of
        None \<Rightarrow> None
      | Some r \<Rightarrow>
          Some (fst r,
                sleep 3000
                  ((cleanup E (take groupSize (drop i files)) (snd r))
                     \<lparr>groups := groups (snd r) @ [take groupSize (drop i files)]\<rparr>)))"
  by (simp add: send_group_def Let_def split: option.splits prod.splits)

lemma try_group_eval:
  "try_group E files i fileGroup st =
     (case mediaGroup_of fileGroup of
        Inl error \<Rightarrow> Some ((fst st)\<lparr>failedFiles := failedFiles (fst st) @ fileGroup\<rparr>, snd st)
      | Inr mediaGroup \<Rightarrow>
          (case retry_loop E 0 3000 (snd st) of
             None \<Rightarrow> None
           | Some r \<Rightarrow>
               if fst r
               then (if (successCount (fst st) + length fileGroup) mod 30 = 0 \<or>
                        i + groupSize \<ge> length files
                     then (case reply E (Progress (successCount (fst st) + length fileGroup)
                                           (length files)) (snd r) of
                             (None, w2) \<Rightarrow>
                               Some ((fst st)\<lparr>successCount :=
                                       successCount (fst st) + length fileGroup\<rparr>, w2)
                           | (Some error, w2) \<Rightarrow>
                               Some ((fst st)\<lparr>successCount :=
                                       successCount (fst st) + length fileGroup,
                                     failedFiles := failedFiles (fst st) @ fileGroup\<rparr>, w2))
                     else Some ((fst st)\<lparr>successCount :=
                                  successCount (fst st) + length fileGroup\<rparr>, snd r))
               else (case reply E (GroupFailed (i div groupSize + 1)) (snd r) of
                       (None, w2) \<Rightarrow>
                         Some ((fst st)\<lparr>failedFiles := failedFiles (fst st) @ fileGroup\<rparr>, w2)
                     | (Some error, w2) \<Rightarrow>
                         Some ((fst st)\<lparr>failedFiles :=
                                 failedFiles (fst st) @ fileGroup @ fileGroup\<rparr>, w2))))"
  by (cases st) (simp add: try_group_def Let_def split: sum.splits option.splits prod.splits)

lemmas run_defs =
  sendFilesInGroups_def group_loop.simps send_group_eval try_group_eval retry_loop.simps
  submit_def wake_def send_task_def sleep_def reply_def drain.simps process_def add_def
  new_limiter_def start_def groupSize_def groupMaxRetries_def maxRetries_def timeout_def
  backoffMultiplier_def

section \<open>Properties of the queue\<close>

subsection \<open>One iteration of the loop\<close>

lemma process_failure:
  assumes "queue L = item # rest" and "task item (retries item) = (dur, Inl e)"
  shows "settled (process rnd L) =
           (if 5 \<le> retries item + 1 \<or> 30000 < clock L + dur - startTime item
            then settled L @ [(promise item, clock L + dur, Inl e)] else settled L) \<and>
         queue (process rnd L) =
           (if 5 \<le> retries item + 1 \<or> 30000 < clock L + dur - startTime item
            then rest
            else rest @ [item\<lparr>retries := retries item + 1,
                              backoffTime := backoffTime item * (3 / 2)\<rparr>])"
  using assms
  by (simp add: process_def Let_def maxRetries_def timeout_def backoffMultiplier_def)

lemma process_success:
  assumes "queue L = item # rest" and "task item (retries item) = (dur, Inr r)"
  shows "settled (process rnd L) = settled L @ [(promise item, clock L + dur, Inr r)] \<and>
         queue (process rnd L) = reset_front (interval L) rest"
  using assms
  by (simp add: process_def Let_def)

text \<open>
  Claim C4. When the attempt of the first item fails with error \<open>e\<close>, the promise of
  the item is rejected in that iteration, with \<open>e\<close> (the error just raised), exactly
  when the incremented retry count has reached 5 or more than 30000 ms have passed
  between the enqueue of the item and the end of the attempt; the item is then
  removed from the queue. Otherwise no promise is settled and the item stays
  queued. The time is measured from \<open>startTime\<close>, which \<open>add\<close> sets to the time of its
  call.
\<close>

theorem C4_rejection:
  assumes "queue L = item # rest" and "task item (retries item) = (dur, Inl e)"
  shows "(settled (process rnd L) =
            (if 5 \<le> retries item + 1 \<or> 30000 < clock L + dur - startTime item
             then settled L @ [(promise item, clock L + dur, Inl e)] else settled L)) \<and>
         (queue (process rnd L) =
            (if 5 \<le> retries item + 1 \<or> 30000 < clock L + dur - startTime item
             then rest
             else rest @ [item\<lparr>retries := retries item + 1,
                               backoffTime := backoffTime item * (3 / 2)\<rparr>])) \<and>
         startTime (last (queue (add t tsk L))) = t"
  using process_failure [OF assms, of rnd] by (simp add: add_def Let_def)

text \<open>
  The witness: a failing task enqueued at time 7 behind a task that runs for 31
  seconds. Its first attempt ends at 34000, which is 33993 ms after its enqueue, and
  its promise is rejected with the first error although it ran for no time itself
  and has failed only once.
\<close>

theorem C4_rejection_witness:
  "queue (process (\<lambda>n. 0) (add 7 failing_task (add 0 slow_task (new_limiter 3000)))) =
     [\<lparr>task = failing_task, promise = 1, retries = 0, backoffTime = 3000, startTime = 7\<rparr>] \<and>
   task \<lparr>task = failing_task, promise = 1, retries = 0, backoffTime = 3000, startTime = 7\<rparr> 0
     = (0, Inl 0) \<and>
   settled (process (\<lambda>n. 0)
     (process (\<lambda>n. 0) (add 7 failing_task (add 0 slow_task (new_limiter 3000)))))
     = [(0, 31000, Inr ()), (1, 34000, Inl 0)] \<and>
   queue (process (\<lambda>n. 0)
     (process (\<lambda>n. 0) (add 7 failing_task (add 0 slow_task (new_limiter 3000))))) = []"
proof -
  let ?b = "\<lparr>task = failing_task, promise = 1, retries = 0, backoffTime = 3000, startTime = 7\<rparr>"
  let ?L = "process (\<lambda>n. 0) (add 7 failing_task (add 0 slow_task (new_limiter 3000)))"
  have q: "queue ?L = ?b # []"
    by (simp add: process_def add_def new_limiter_def slow_task_def)
  have f: "task ?b (retries ?b) = (0, Inl 0)"
    by (simp add: failing_task_def)
  have c: "clock ?L = 34000" "settled ?L = [(0, 31000, Inr ())]"
    by (simp_all add: process_def add_def new_limiter_def slow_task_def)
  show ?thesis
    using C4_rejection [OF q f, of "\<lambda>n. 0" 0 failing_task] q c
    by (simp add: failing_task_def)
qed

subsection \<open>The order of service\<close>

lemma served_process:
  "queue L = item # rest \<Longrightarrow> served (process rnd L) = served L @ [promise item]"
  by (auto simp: process_def served_def Let_def split: prod.splits sum.splits)

lemma promise_reset_front: "map promise (reset_front iv q) = map promise q"
  by (cases q) simp_all

lemma promises_process:
  "queue L = item # rest \<Longrightarrow>
   \<exists>zs. map promise (queue (process rnd L)) = map promise rest @ zs"
  by (auto simp: process_def Let_def promise_reset_front split: prod.splits sum.splits)

lemma queue_add:
  "queue (add t tsk L) =
     queue L @ [\<lparr>task = tsk, promise = issued L, retries = 0,
                 backoffTime = interval L, startTime = t\<rparr>]"
  by (simp add: add_def Let_def)

lemma served_add: "served (add t tsk L) = served L"
  by (simp add: add_def Let_def served_def)

text \<open>
  Whatever is submitted meanwhile, the next iterations of the loop serve the items
  at the front of the queue in their order, and leave the items behind them in
  place.
\<close>

lemma run_serves_front:
  "map promise (queue L) = ps @ qs \<Longrightarrow> spin_count evs = length ps \<Longrightarrow>
   served (run rnd evs L) = served L @ ps \<and>
   (\<exists>zs. map promise (queue (run rnd evs L)) = qs @ zs)"
proof (induction evs arbitrary: L ps qs)
  case Nil
  then show ?case by simp
next
  case (Cons ev evs)
  show ?case
  proof (cases ev)
    case (Submit t tsk)
    have q: "map promise (queue (add t tsk L)) = ps @ (qs @ [issued L])"
      using Cons.prems(1) by (simp add: queue_add)
    have n: "spin_count evs = length ps"
      using Cons.prems(2) Submit by simp
    from Cons.IH [OF q n] show ?thesis
      using Submit by (auto simp: served_add)
  next
    case Spin
    then obtain p ps' where ps: "ps = p # ps'" and n: "spin_count evs = length ps'"
      using Cons.prems(2) by (cases ps) auto
    then obtain item rest where q: "queue L = item # rest" and p: "promise item = p"
      and r: "map promise rest = ps' @ qs"
      using Cons.prems(1) by (cases "queue L") auto
    from promises_process [OF q, of rnd] obtain zs
      where "map promise (queue (process rnd L)) = ps' @ (qs @ zs)"
      using r by auto
    from Cons.IH [OF this n] show ?thesis
      using Spin ps p served_process [OF q, of rnd] by auto
  qed
qed

text \<open>
  Claim C3. A submitted task goes to the end of the queue; an iteration of the loop
  serves the first item; the items queued are served in the order of the queue,
  whatever is submitted meanwhile. When the attempt of the first item fails and is
  to be retried, the item moves behind all items pending at that moment instead of
  staying first: each of them is served once, in order, before the item is first
  again.
\<close>

theorem C3_fifo_order:
  assumes "queue L = item # rest"
  shows "queue (add t tsk L) =
           queue L @ [\<lparr>task = tsk, promise = issued L, retries = 0,
                       backoffTime = interval L, startTime = t\<rparr>] \<and>
         served (process rnd L) = served L @ [promise item] \<and>
         (\<forall>evs. spin_count evs = length (queue L) \<longrightarrow>
            served (run rnd evs L) = served L @ map promise (queue L)) \<and>
         (task item (retries item) = (dur, Inl e) \<and> retries item + 1 < 5 \<and>
          clock L + dur - startTime item \<le> 30000 \<longrightarrow>
            queue (process rnd L) =
              rest @ [item\<lparr>retries := retries item + 1,
                           backoffTime := backoffTime item * (3 / 2)\<rparr>] \<and>
            (\<forall>evs. spin_count evs = length rest \<longrightarrow>
               served (run rnd evs (process rnd L)) = served L @ promise item # map promise rest \<and>
               (\<exists>zs. map promise (queue (run rnd evs (process rnd L))) = promise item # zs)))"
proof (intro conjI allI impI)
  show "queue (add t tsk L) =
          queue L @ [\<lparr>task = tsk, promise = issued L, retries = 0,
                      backoffTime = interval L, startTime = t\<rparr>]"
    by (rule queue_add)
  show "served (process rnd L) = served L @ [promise item]"
    by (rule served_process [OF assms])
next
  fix evs :: "('a, 'b) event list"
  assume "spin_count evs = length (queue L)"
  then show "served (run rnd evs L) = served L @ map promise (queue L)"
    using run_serves_front [of L "map promise (queue L)" "[]" evs rnd] by simp
next
  assume f: "task item (retries item) = (dur, Inl e) \<and> retries item + 1 < 5 \<and>
             clock L + dur - startTime item \<le> 30000"
  then show q: "queue (process rnd L) =
              rest @ [item\<lparr>retries := retries item + 1,
                           backoffTime := backoffTime item * (3 / 2)\<rparr>]"
    using process_failure [OF assms, of dur e rnd] by simp
  fix evs :: "('a, 'b) event list"
  assume n: "spin_count evs = length rest"
  have "map promise (queue (process rnd L)) = map promise rest @ [promise item]"
    using q by simp
  from run_serves_front [OF this, of evs rnd] n
  show "served (run rnd evs (process rnd L)) = served L @ promise item # map promise rest"
    and "\<exists>zs. map promise (queue (run rnd evs (process rnd L))) = promise item # zs"
    using served_process [OF assms, of rnd] by auto
qed

text \<open>
  The witness: a failing task and, behind it, a slow task. The failing task is
  served, moves behind the slow task, the slow task is served (a third task
  submitted meanwhile queues behind the failing one), then the failing task again.
\<close>

theorem C3_fifo_order_witness:
  "queue (add 1 slow_task (add 0 failing_task (new_limiter 3000))) =
     \<lparr>task = failing_task, promise = 0, retries = 0, backoffTime = 3000, startTime = 0\<rparr> #
     [\<lparr>task = slow_task, promise = 1, retries = 0, backoffTime = 3000, startTime = 1\<rparr>] \<and>
   failing_task 0 = (0, Inl 0) \<and>
   served (run (\<lambda>n. 0) [Spin, Submit 5 slow_task, Spin, Spin]
            (add 1 slow_task (add 0 failing_task (new_limiter 3000)))) = [0, 1, 0] \<and>
   map promise (queue (run (\<lambda>n. 0) [Spin, Submit 5 slow_task, Spin]
            (add 1 slow_task (add 0 failing_task (new_limiter 3000))))) = [0, 2]"
proof -
  let ?a = "\<lparr>task = failing_task, promise = 0, retries = 0, backoffTime = 3000, startTime = 0\<rparr>"
  let ?b = "\<lparr>task = slow_task, promise = 1, retries = 0, backoffTime = 3000, startTime = 1\<rparr>"
  let ?L = "add 1 slow_task (add 0 failing_task (new_limiter 3000))"
  have q: "queue ?L = ?a # [?b]"
    by (simp add: add_def new_limiter_def)
  have s: "served ?L = []" "clock ?L = 0"
    by (simp_all add: add_def new_limiter_def served_def)
  have f: "failing_task 0 = (0, Inl 0)"
    by (simp add: failing_task_def)
  have "\<forall>evs. spin_count evs = Suc 0 \<longrightarrow>
          served (run (\<lambda>n. 0) evs (process (\<lambda>n. 0) ?L)) = [0, 1] \<and>
          (\<exists>zs. map promise (queue (run (\<lambda>n. 0) evs (process (\<lambda>n. 0) ?L))) = 0 # zs)"
    using C3_fifo_order [OF q, of 0 failing_task "\<lambda>n. 0" 0 0] s f by simp
  moreover have "spin_count [Submit 5 slow_task, Spin :: (nat, unit) event] = Suc 0"
    by simp
  ultimately have
    "served (run (\<lambda>n. 0) [Submit 5 slow_task, Spin] (process (\<lambda>n. 0) ?L)) = [0, 1] \<and>
     (\<exists>zs. map promise (queue (run (\<lambda>n. 0) [Submit 5 slow_task, Spin] (process (\<lambda>n. 0) ?L)))
        = 0 # zs)"
    by blast
  moreover have "map promise (queue (run (\<lambda>n. 0) [Spin, Submit 5 slow_task, Spin] ?L)) = [0, 2]"
    by (simp add: process_def add_def new_limiter_def failing_task_def slow_task_def
          maxRetries_def timeout_def backoffMultiplier_def)
  moreover have "served (run (\<lambda>n. 0) [Spin, Submit 5 slow_task, Spin, Spin] ?L) = [0, 1, 0]"
    by (simp add: process_def add_def new_limiter_def failing_task_def slow_task_def
          maxRetries_def timeout_def backoffMultiplier_def served_def)
  ultimately show ?thesis
    using q f by simp
qed


subsection \<open>Running until the queue is empty\<close>

lemma drain_empty: "queue L = [] \<Longrightarrow> drain rnd L = L"
  by (simp add: drain.simps)

lemma drain_step: "queue L \<noteq> [] \<Longrightarrow> drain rnd L = drain rnd (process rnd L)"
  by (subst drain.simps) simp

lemma map_upt_shift: "map f [0..<Suc m] = f 0 # map (\<lambda>j. f (Suc j)) [0..<m]"
  by (simp add: upt_conv_Cons map_Suc_upt [symmetric] del: upt_Suc)

subsection \<open>Promises are unique\<close>

lemma issued_process: "issued (process rnd L) = issued L"
  by (cases "queue L") (auto simp: process_def Let_def split: prod.splits sum.splits)










subsection \<open>The log of one promise\<close>











subsection \<open>The fate of one promise\<close>



















section \<open>Properties of the delivery\<close>

subsection \<open>Every submission is settled\<close>

lemma issued_drain: "issued (drain rnd L) = issued L"
proof (induction rnd L rule: drain.induct)
  case (1 rnd L)
  then show ?case
    by (cases "queue L = []") (simp_all add: drain_empty drain_step issued_process)
qed

lemma process_keeps_promises:
  "promise ` set (queue L) \<union> fst ` set (settled L)
     \<subseteq> promise ` set (queue (process rnd L)) \<union> fst ` set (settled (process rnd L))"
proof (cases "queue L")
  case Nil
  then show ?thesis by (simp add: process_def)
next
  case (Cons item rest)
  have "promise ` set (reset_front (interval L) rest) = promise ` set rest"
    using promise_reset_front [of "interval L" rest] by (metis set_map)
  then show ?thesis
    using Cons by (auto simp: process_def Let_def split: prod.splits sum.splits)
qed

lemma drain_settles_all:
  "promise ` set (queue L) \<union> fst ` set (settled L) \<subseteq> fst ` set (settled (drain rnd L))"
proof (induction rnd L rule: drain.induct)
  case (1 rnd L)
  show ?case
  proof (cases "queue L = []")
    case True
    then show ?thesis by (simp add: drain_empty)
  next
    case False
    then show ?thesis
      using 1 process_keeps_promises [of L rnd] by (simp add: drain_step) blast
  qed
qed

lemma find_promise:
  "p \<in> fst ` set xs \<Longrightarrow> \<exists>t r. find (\<lambda>(q, t, r). q = p) xs = Some (p, t, r)"
  by (induction xs) auto


lemma submit_defined:
  "\<exists>r t L n. submit E w = Some (r, w\<lparr>now := t, rateLimiter := L, sendCalls := n\<rparr>) \<and>
     issued L = Suc (issued (rateLimiter w))"
proof -
  let ?L0 = "wake (loopRandom E) (now w) (rateLimiter w)"
  let ?A = "add (now w) (send_task E (sendCalls w)) ?L0"
  let ?L1 = "drain (loopRandom E) ?A"
  have i0: "issued ?L0 = issued (rateLimiter w)"
    by (simp add: wake_def issued_process)
  have "issued ?L0 \<in> promise ` set (queue ?A)"
    by (simp add: queue_add)
  then have "issued ?L0 \<in> fst ` set (settled ?L1)"
    using drain_settles_all [of ?A "loopRandom E"] by (rule_tac subsetD) auto
  from find_promise [OF this]
  obtain t r where f: "find (\<lambda>(q, t, r). q = issued ?L0) (settled ?L1) = Some (issued ?L0, t, r)"
    by auto
  have i1: "issued ?L1 = Suc (issued (rateLimiter w))"
    using i0 by (simp add: issued_drain add_def Let_def)
  have "submit E w = Some (r, w\<lparr>now := t, rateLimiter := ?L1,
          sendCalls := sendCalls w +
            length (filter (\<lambda>(q, el, v). q = issued ?L0) (attempts ?L1))\<rparr>)"
    unfolding submit_def Let_def f by simp
  then show ?thesis
    using i1 by blast
qed


subsection \<open>The retry loop of one group\<close>

lemma retry_loop_stop:
  "\<not> c < 5 \<Longrightarrow> retry_loop E c b w = Some (False, w)"
  by (subst retry_loop.simps) (simp add: groupMaxRetries_def)

lemma retry_loop_success:
  "c < 5 \<Longrightarrow> submit E w = Some (Inr u, w1) \<Longrightarrow> retry_loop E c b w = Some (True, w1)"
  by (subst retry_loop.simps) (simp add: groupMaxRetries_def)

lemma retry_loop_failure:
  "c < 5 \<Longrightarrow> submit E w = Some (Inl e, w1) \<Longrightarrow>
   retry_loop E c b w =
     retry_loop E (Suc c) (b * (3 / 2))
       (sleep (b * (3 / 2) + retryRandom E (draws w1) * 1000)
          (w1\<lparr>draws := Suc (draws w1),
              retryWaits := retryWaits w1 @ [b * (3 / 2) + retryRandom E (draws w1) * 1000]\<rparr>))"
  by (subst retry_loop.simps) (simp add: groupMaxRetries_def Let_def)

lemma retry_loop_spec:
  "\<exists>success w' n.
     retry_loop E c b w = Some (success, w') \<and>
     retryWaits w' = retryWaits w @
       map (\<lambda>i. b * (3 / 2) ^ Suc i + retryRandom E (draws w + i) * 1000) [0..<n] \<and>
     draws w' = draws w + n \<and>
     issued (rateLimiter w') = issued (rateLimiter w) + (if success then Suc n else n) \<and>
     (success \<longrightarrow> c + n < 5) \<and> (\<not> success \<longrightarrow> c + n = max c 5) \<and>
     existing w' = existing w \<and> replies w' = replies w \<and> unlinked w' = unlinked w \<and>
     groups w' = groups w"
proof (induction m \<equiv> "5 - c" arbitrary: c b w)
  case 0
  then have "\<not> c < 5" by simp
  then have "retry_loop E c b w = Some (False, w)" by (rule retry_loop_stop)
  then show ?case
    using 0 by (intro exI [of _ False] exI [of _ w] exI [of _ 0]) simp
next
  case (Suc m)
  then have c: "c < 5" by simp
  obtain r t L k where s: "submit E w = Some (r, w\<lparr>now := t, rateLimiter := L, sendCalls := k\<rparr>)"
    and i: "issued L = Suc (issued (rateLimiter w))"
    using submit_defined by blast
  let ?w1 = "w\<lparr>now := t, rateLimiter := L, sendCalls := k\<rparr>"
  show ?case
  proof (cases r)
    case (Inr u)
    have "retry_loop E c b w = Some (True, ?w1)"
      using c s Inr by (simp add: retry_loop_success)
    then show ?thesis
      using c i by (intro exI [of _ True] exI [of _ ?w1] exI [of _ 0]) simp
  next
    case (Inl e)
    let ?d = "b * (3 / 2) + retryRandom E (draws w) * 1000"
    let ?w2 = "sleep ?d (?w1\<lparr>draws := Suc (draws ?w1), retryWaits := retryWaits ?w1 @ [?d]\<rparr>)"
    have step: "retry_loop E c b w = retry_loop E (Suc c) (b * (3 / 2)) ?w2"
      using retry_loop_failure [OF c, of E w e ?w1 b] s Inl by simp
    have m: "m = 5 - Suc c"
      using Suc(2) by simp
    from Suc(1) [OF m, of "b * (3 / 2)" ?w2]
    obtain success w' n where
      r: "retry_loop E (Suc c) (b * (3 / 2)) ?w2 = Some (success, w')"
      and W: "retryWaits w' = retryWaits ?w2 @
           map (\<lambda>i. b * (3 / 2) * (3 / 2) ^ Suc i + retryRandom E (draws ?w2 + i) * 1000) [0..<n]"
      and D: "draws w' = draws ?w2 + n"
      and I: "issued (rateLimiter w') = issued (rateLimiter ?w2) + (if success then Suc n else n)"
      and S: "success \<longrightarrow> Suc c + n < 5" "\<not> success \<longrightarrow> Suc c + n = max (Suc c) 5"
      and F: "existing w' = existing ?w2" "replies w' = replies ?w2" "unlinked w' = unlinked ?w2"
        "groups w' = groups ?w2"
      by blast
    have W': "retryWaits w' = retryWaits w @
         map (\<lambda>i. b * (3 / 2) ^ Suc i + retryRandom E (draws w + i) * 1000) [0..<Suc n]"
      unfolding W by (subst map_upt_shift) (simp add: sleep_def mult_ac)
    show ?thesis
      using r W' D I S F c i unfolding step
      by (intro exI [of _ success] exI [of _ w'] exI [of _ "Suc n"])
         (simp add: sleep_def del: upt_Suc)
  qed
qed


text \<open>
  The rounds of the retry loop: for each submission the world in which it is made,
  its result, and the world in which the loop resumes when the promise is settled.
\<close>

lemma retry_loop_rounds:
  "\<exists>success w' n rounds ws.
     retry_loop E c b w = Some (success, w') \<and>
     ws = map (\<lambda>i. b * (3 / 2) ^ Suc i + retryRandom E (draws w + i) * 1000) [0..<n] \<and>
     retryWaits w' = retryWaits w @ ws \<and>
     issued (rateLimiter w') = issued (rateLimiter w) + length rounds \<and>
     length rounds = (if success then Suc n else n) \<and>
     (success \<longrightarrow> c + n < 5) \<and> (\<not> success \<longrightarrow> c + n = max c 5) \<and>
     (\<forall>(u, res, v) \<in> set rounds. submit E u = Some (res, v)) \<and>
     map (\<lambda>(u, res, v). isl res) rounds = replicate n True @ (if success then [False] else []) \<and>
     map (\<lambda>(u, res, v). now u) rounds @ (if success then [] else [now w']) =
       now w # map2 (+) (map (\<lambda>(u, res, v). now v) (take n rounds)) ws \<and>
     (success \<longrightarrow> (\<exists>u res. last rounds = (u, res, w'))) \<and>
     (rounds \<noteq> [] \<longrightarrow> fst (hd rounds) = w)"
proof (induction m \<equiv> "5 - c" arbitrary: c b w)
  case 0
  then have "\<not> c < 5" by simp
  then have "retry_loop E c b w = Some (False, w)" by (rule retry_loop_stop)
  then show ?case
    using 0
    by (intro exI [of _ False] exI [of _ w] exI [of _ 0] exI [of _ "[]"] exI [of _ "[]"]) simp
next
  case (Suc m)
  then have c: "c < 5" by simp
  obtain r t L k where s: "submit E w = Some (r, w\<lparr>now := t, rateLimiter := L, sendCalls := k\<rparr>)"
    and i: "issued L = Suc (issued (rateLimiter w))"
    using submit_defined by blast
  let ?w1 = "w\<lparr>now := t, rateLimiter := L, sendCalls := k\<rparr>"
  show ?case
  proof (cases r)
    case (Inr u)
    have "retry_loop E c b w = Some (True, ?w1)"
      using c s Inr by (simp add: retry_loop_success)
    then show ?thesis
      using c i s Inr
      by (intro exI [of _ True] exI [of _ ?w1] exI [of _ 0] exI [of _ "[(w, Inr u, ?w1)]"]
                exI [of _ "[]"]) simp
  next
    case (Inl e)
    let ?d = "b * (3 / 2) + retryRandom E (draws w) * 1000"
    let ?w2 = "sleep ?d (?w1\<lparr>draws := Suc (draws ?w1), retryWaits := retryWaits ?w1 @ [?d]\<rparr>)"
    have step: "retry_loop E c b w = retry_loop E (Suc c) (b * (3 / 2)) ?w2"
      using retry_loop_failure [OF c, of E w e ?w1 b] s Inl by simp
    have m: "m = 5 - Suc c"
      using Suc(2) by simp
    obtain success w' n rounds ws where
          r: "retry_loop E (Suc c) (b * (3 / 2)) ?w2 = Some (success, w')"
      and ws: "ws = map (\<lambda>i. b * (3 / 2) * (3 / 2) ^ Suc i +
                           retryRandom E (draws ?w2 + i) * 1000) [0..<n]"
      and W: "retryWaits w' = retryWaits ?w2 @ ws"
      and I: "issued (rateLimiter w') = issued (rateLimiter ?w2) + length rounds"
      and len: "length rounds = (if success then Suc n else n)"
      and S1: "success \<longrightarrow> Suc c + n < 5" and S2: "\<not> success \<longrightarrow> Suc c + n = max (Suc c) 5"
      and sub: "\<forall>(u, res, v) \<in> set rounds. submit E u = Some (res, v)"
      and isl: "map (\<lambda>(u, res, v). isl res) rounds =
                  replicate n True @ (if success then [False] else [])"
      and tm: "map (\<lambda>(u, res, v). now u) rounds @ (if success then [] else [now w']) =
                 now ?w2 # map2 (+) (map (\<lambda>(u, res, v). now v) (take n rounds)) ws"
      and lst: "success \<longrightarrow> (\<exists>u res. last rounds = (u, res, w'))"
      and hd: "rounds \<noteq> [] \<longrightarrow> fst (hd rounds) = ?w2"
      using Suc(1) [OF m, of "b * (3 / 2)" ?w2] by (elim exE conjE) (rule that; assumption)
    let ?rounds = "(w, Inl e, ?w1) # rounds"
    let ?ws = "?d # ws"
    have ws': "?ws = map (\<lambda>i. b * (3 / 2) ^ Suc i + retryRandom E (draws w + i) * 1000)
                       [0..<Suc n]"
      unfolding ws by (subst map_upt_shift) (simp add: sleep_def mult_ac)
    have W': "retryWaits w' = retryWaits w @ ?ws"
      using W by (simp add: sleep_def)
    have I': "issued (rateLimiter w') = issued (rateLimiter w) + length ?rounds"
      using I i by (simp add: sleep_def)
    have len': "length ?rounds = (if success then Suc (Suc n) else Suc n)"
      using len by simp
    have S': "success \<longrightarrow> c + Suc n < 5" "\<not> success \<longrightarrow> c + Suc n = max c 5"
      using S1 S2 c by auto
    have sub': "\<forall>(u, res, v) \<in> set ?rounds. submit E u = Some (res, v)"
      using sub s Inl by simp
    have isl': "map (\<lambda>(u, res, v). isl res) ?rounds =
                  replicate (Suc n) True @ (if success then [False] else [])"
      using isl by simp
    have n2: "now ?w2 = now ?w1 + ?d"
      by (simp add: sleep_def)
    have tm': "map (\<lambda>(u, res, v). now u) ?rounds @ (if success then [] else [now w']) =
                 now w # map2 (+) (map (\<lambda>(u, res, v). now v) (take (Suc n) ?rounds)) ?ws"
      using tm unfolding n2 by simp
    have ne: "success \<longrightarrow> rounds \<noteq> []"
      using len by auto
    have lst': "success \<longrightarrow> (\<exists>u res. last ?rounds = (u, res, w'))"
      using lst ne by simp
    have hd': "?rounds \<noteq> [] \<longrightarrow> fst (hd ?rounds) = w"
      by simp
    show ?thesis
      unfolding step
      using r ws' W' I' len' S' sub' isl' tm' lst' hd'
      by (intro exI [of _ success] exI [of _ w'] exI [of _ "Suc n"] exI [of _ ?rounds]
                exI [of _ ?ws] conjI) assumption+
  qed
qed

text \<open>
  Claim C7. Around the submission to the queue the delivery has its own retry loop,
  started anew for every group with a backoff of 3000 ms. The send is submitted
  at most 5 times (\<open>rounds\<close> lists the submissions, each with the world before it
  and the world after its promise is settled); \<open>n\<close> is the number of submissions
  that were rejected. The loop stops at the first submission that is resolved, or
  after the fifth rejection. After the \<open>i\<close>-th rejection the backoff, multiplied by
  1.5 once more, is \<open>3000 \<times> 1.5\<^sup>i\<close>, and the loop waits for that plus a jitter of
  \<open>Math.random() \<times> 1000\<close> ms, which is below 1000 when \<open>Math.random()\<close> is in \<open>[0, 1)\<close>:
  the first submission is made when the loop starts, every later one at the time
  the one before was rejected plus that wait, and after the fifth rejection the
  loop ends at the time of this rejection plus the fifth wait.
\<close>

theorem C7_second_retry_layer:
  "\<exists>success w' n rounds.
     retry_loop E 0 3000 w = Some (success, w') \<and>
     length rounds = (if success then Suc n else n) \<and> length rounds \<le> 5 \<and>
     issued (rateLimiter w') = issued (rateLimiter w) + length rounds \<and>
     (success \<longrightarrow> n < 5) \<and> (\<not> success \<longrightarrow> n = 5) \<and>
     fst (hd rounds) = w \<and>
     (\<forall>(u, res, v) \<in> set rounds. submit E u = Some (res, v)) \<and>
     map (\<lambda>(u, res, v). isl res) rounds = replicate n True @ (if success then [False] else []) \<and>
     (success \<longrightarrow> (\<exists>u res. last rounds = (u, res, w'))) \<and>
     retryWaits w' = retryWaits w @
       map (\<lambda>i. 3000 * (3 / 2) ^ Suc i + retryRandom E (draws w + i) * 1000) [0..<n] \<and>
     map (\<lambda>(u, res, v). now u) rounds @ (if success then [] else [now w']) =
       now w # map2 (+) (map (\<lambda>(u, res, v). now v) (take n rounds))
                 (map (\<lambda>i. 3000 * (3 / 2) ^ Suc i + retryRandom E (draws w + i) * 1000) [0..<n]) \<and>
     ((\<forall>i. 0 \<le> retryRandom E i \<and> retryRandom E i < 1) \<longrightarrow>
      (\<forall>i. 0 \<le> retryRandom E i * 1000 \<and> retryRandom E i * 1000 < 1000))"
proof -
  obtain success w' n rounds ws where
        r: "retry_loop E 0 3000 w = Some (success, w')"
    and ws: "ws = map (\<lambda>i. 3000 * (3 / 2) ^ Suc i + retryRandom E (draws w + i) * 1000) [0..<n]"
    and W: "retryWaits w' = retryWaits w @ ws"
    and I: "issued (rateLimiter w') = issued (rateLimiter w) + length rounds"
    and len: "length rounds = (if success then Suc n else n)"
    and S1: "success \<longrightarrow> 0 + n < 5" and S2: "\<not> success \<longrightarrow> 0 + n = max 0 5"
    and sub: "\<forall>(u, res, v) \<in> set rounds. submit E u = Some (res, v)"
    and isl: "map (\<lambda>(u, res, v). isl res) rounds =
                replicate n True @ (if success then [False] else [])"
    and tm: "map (\<lambda>(u, res, v). now u) rounds @ (if success then [] else [now w']) =
               now w # map2 (+) (map (\<lambda>(u, res, v). now v) (take n rounds)) ws"
    and lst: "success \<longrightarrow> (\<exists>u res. last rounds = (u, res, w'))"
    and hd: "rounds \<noteq> [] \<longrightarrow> fst (hd rounds) = w"
    using retry_loop_rounds [of E 0 3000 w] by (elim exE conjE) (rule that; assumption)
  have ne: "rounds \<noteq> []" and l5: "length rounds \<le> 5"
    using len S1 S2 by (auto split: if_splits)
  have j: "(\<forall>i. 0 \<le> retryRandom E i \<and> retryRandom E i < 1) \<longrightarrow>
      (\<forall>i. 0 \<le> retryRandom E i * 1000 \<and> retryRandom E i * 1000 < 1000)"
    by auto
  have S: "success \<longrightarrow> n < 5" "\<not> success \<longrightarrow> n = 5"
    using S1 S2 by simp_all
  have h: "fst (hd rounds) = w"
    using hd ne by simp
  show ?thesis
    using r len l5 I S h sub isl lst W tm j unfolding ws
    by (intro exI [of _ success] exI [of _ w'] exI [of _ n] exI [of _ rounds] conjI) assumption+
qed

text \<open>
  The witness: every send raises. Five submissions, each given up by the queue
  after four attempts, 32375 ms after it was made; five waits with a jitter of 500
  ms. The second submission is made at 32375 + 5000 and rejected at 69750, and so
  on; the loop ends at 200437.5 + 23281.25.
\<close>

theorem C7_second_retry_layer_witness:
  "(\<forall>i. 0 \<le> retryRandom failing_env i \<and> retryRandom failing_env i < 1) \<and>
   map_option (\<lambda>(s, w). (s, retryWaits w, issued (rateLimiter w), sendCalls w,
                           map (fst \<circ> snd) (settled (rateLimiter w)), now w))
     (retry_loop failing_env 0 3000 (start {})) =
   Some (False, [4500 + 500, 6750 + 500, 10125 + 500, 30375 / 2 + 500, 91125 / 4 + 500], 5, 20,
         [32375, 32375 + 5000 + 32375, 69750 + 7250 + 32375, 109375 + 10625 + 32375,
          152375 + (30375 / 2 + 500) + 32375],
         400875 / 2 + (91125 / 4 + 500)) \<and>
   (\<forall>i. 0 \<le> retryRandom failing_env i * 1000 \<and> retryRandom failing_env i * 1000 < 1000)"
proof -
  have h: "\<forall>i. 0 \<le> retryRandom failing_env i \<and> retryRandom failing_env i < 1"
    by (simp add: failing_env_def)
  have v: "map_option (\<lambda>(s, w). (s, retryWaits w, issued (rateLimiter w), sendCalls w,
                           map (fst \<circ> snd) (settled (rateLimiter w)), now w))
             (retry_loop failing_env 0 3000 (start {})) =
           Some (False, [5000, 7250, 10625, 31375 / 2, 93125 / 4], 5, 20,
                 [32375, 69750, 109375, 152375, 400875 / 2], 894875 / 4)"
    by (simp add: run_defs failing_env_def)
  show ?thesis
    using C7_second_retry_layer [of failing_env "start {}"] h v by auto
qed

subsection \<open>The cleanup of one group\<close>

lemma paths_simps [simp]:
  "paths [] = {}" "paths (None # fs) = paths fs" "paths (Some f # fs) = insert (path f) (paths fs)"
  by (auto simp: paths_def)

lemma paths_append: "paths (xs @ ys) = paths xs \<union> paths ys"
  by (auto simp: paths_def)

lemma cleanup_existing:
  "existing (cleanup E g w) = existing w - {p \<in> paths g. \<not> unlinkRaises E p}"
  by (induction E g w rule: cleanup.induct) auto

lemma cleanup_unlinked:
  "count_list (unlinked (cleanup E g w)) p =
     count_list (unlinked w) p +
     (if p \<in> paths g \<and> p \<in> existing w \<and> \<not> unlinkRaises E p then 1 else 0)"
  by (induction E g w rule: cleanup.induct) auto

lemma cleanup_other:
  "replies (cleanup E g w) = replies w" "groups (cleanup E g w) = groups w"
  "retryWaits (cleanup E g w) = retryWaits w" "rateLimiter (cleanup E g w) = rateLimiter w"
  by (induction E g w rule: cleanup.induct) auto

subsection \<open>One group\<close>

lemma reply_frame:
  "\<exists>t. reply E msg w =
     (snd (replyResult E (length (replies w))), w\<lparr>replies := replies w @ [msg], now := t\<rparr>)"
  by (cases "replyResult E (length (replies w))") (auto simp: reply_def)

lemma try_group_spec:
  "\<exists>acc' w' fg ms.
     try_group E files i g (acc, w) = Some (acc', w') \<and>
     existing w' = existing w \<and> unlinked w' = unlinked w \<and> groups w' = groups w \<and>
     failedFiles acc' = failedFiles acc @ fg \<and>
     replies w' = replies w @ ms \<and> (\<forall>s f n h. Summary s f n h \<notin> set ms) \<and>
     ((\<forall>n. snd (replyResult E n) = None) \<longrightarrow>
        successCount acc' + length (failedFiles acc') =
          successCount acc + length (failedFiles acc) + length g)"
proof (cases "mediaGroup_of g")
  case (Inl e)
  then show ?thesis
    by (simp add: try_group_def)
next
  case (Inr mg)
  from retry_loop_spec [of E 0 3000 w]
  obtain success w1 where r: "retry_loop E 0 3000 w = Some (success, w1)"
    and f: "existing w1 = existing w" "replies w1 = replies w" "unlinked w1 = unlinked w"
      "groups w1 = groups w"
    by blast
  obtain t1 where p: "reply E (Progress (successCount acc + length g) (length files)) w1 =
     (snd (replyResult E (length (replies w1))),
      w1\<lparr>replies := replies w1 @ [Progress (successCount acc + length g) (length files)], now := t1\<rparr>)"
    using reply_frame by blast
  obtain t2 where q: "reply E (GroupFailed (i div groupSize + 1)) w1 =
     (snd (replyResult E (length (replies w1))),
      w1\<lparr>replies := replies w1 @ [GroupFailed (i div groupSize + 1)], now := t2\<rparr>)"
    using reply_frame by blast
  show ?thesis
    using Inr r f p q
    by (cases "snd (replyResult E (length (replies w1)))")
       (auto simp: try_group_def Let_def)
qed


lemma send_group_spec:
  "\<exists>acc' w' fg ms.
     send_group E files i (acc, w) = Some (acc', w') \<and>
     groups w' = groups w @ [take groupSize (drop i files)] \<and>
     existing w' =
       existing w - {p \<in> paths (take groupSize (drop i files)). \<not> unlinkRaises E p} \<and>
     (\<forall>p. count_list (unlinked w') p =
            count_list (unlinked w) p +
            (if p \<in> paths (take groupSize (drop i files)) \<and> p \<in> existing w \<and>
                \<not> unlinkRaises E p then 1 else 0)) \<and>
     failedFiles acc' = failedFiles acc @ fg \<and>
     replies w' = replies w @ ms \<and> (\<forall>s f n h. Summary s f n h \<notin> set ms) \<and>
     ((\<forall>n. snd (replyResult E n) = None) \<longrightarrow>
        successCount acc' + length (failedFiles acc') =
          successCount acc + length (failedFiles acc) + length (take groupSize (drop i files)))"
proof -
  let ?g = "take groupSize (drop i files)"
  from try_group_spec [of E files i ?g acc w]
  obtain acc' w1 fg ms where t: "try_group E files i ?g (acc, w) = Some (acc', w1)"
    and f: "existing w1 = existing w" "unlinked w1 = unlinked w" "groups w1 = groups w"
    and a: "failedFiles acc' = failedFiles acc @ fg"
    and m: "replies w1 = replies w @ ms" "\<forall>s f n h. Summary s f n h \<notin> set ms"
    and c: "(\<forall>n. snd (replyResult E n) = None) \<longrightarrow>
        successCount acc' + length (failedFiles acc') =
          successCount acc + length (failedFiles acc) + length ?g"
    by blast
  let ?w' = "sleep 3000 ((cleanup E ?g w1)\<lparr>groups := groups w1 @ [?g]\<rparr>)"
  have s: "send_group E files i (acc, w) = Some (acc', ?w')"
    using t by (simp add: send_group_def Let_def)
  have "groups ?w' = groups w @ [?g]"
    using f by (simp add: sleep_def)
  moreover have "existing ?w' = existing w - {p \<in> paths ?g. \<not> unlinkRaises E p}"
    using f by (simp add: sleep_def cleanup_existing)
  moreover have "\<forall>p. count_list (unlinked ?w') p =
            count_list (unlinked w) p +
            (if p \<in> paths ?g \<and> p \<in> existing w \<and> \<not> unlinkRaises E p then 1 else 0)"
    using f by (simp add: sleep_def cleanup_unlinked)
  moreover have "replies ?w' = replies w @ ms"
    using m by (simp add: sleep_def cleanup_other)
  ultimately show ?thesis
    using s a m(2) c by blast
qed

lemma paths_drop:
  "i < length files \<Longrightarrow>
   paths (drop i files) = paths (take groupSize (drop i files)) \<union> paths (drop (i + groupSize) files)"
proof -
  have "drop i files = take groupSize (drop i files) @ drop (i + groupSize) files"
    by (metis append_take_drop_id drop_drop add.commute)
  then show ?thesis
    using paths_append by metis
qed

lemma group_loop_stop: "\<not> i < length files \<Longrightarrow> group_loop E files i st = Some st"
  by (subst group_loop.simps) simp

lemma group_loop_step:
  "i < length files \<Longrightarrow> send_group E files i st = Some st1 \<Longrightarrow>
   group_loop E files i st = group_loop E files (i + groupSize) st1"
  by (subst group_loop.simps) simp

lemma group_loop_spec:
  "\<exists>acc' w' fg ms.
     group_loop E files i st = Some (acc', w') \<and>
     groups w' = groups (snd st) @ slices files i \<and>
     existing w' = existing (snd st) - {p \<in> paths (drop i files). \<not> unlinkRaises E p} \<and>
     (\<forall>p. count_list (unlinked w') p =
            count_list (unlinked (snd st)) p +
            (if p \<in> paths (drop i files) \<and> p \<in> existing (snd st) \<and>
                \<not> unlinkRaises E p then 1 else 0)) \<and>
     failedFiles acc' = failedFiles (fst st) @ fg \<and>
     replies w' = replies (snd st) @ ms \<and> (\<forall>s f n h. Summary s f n h \<notin> set ms) \<and>
     ((\<forall>n. snd (replyResult E n) = None) \<longrightarrow>
        successCount acc' + length (failedFiles acc') =
          successCount (fst st) + length (failedFiles (fst st)) + (length files - i))"
proof (induction E files i st rule: group_loop.induct)
  case (1 E files i st)
  show ?case
  proof (cases "i < length files")
    case False
    then have "group_loop E files i st = Some (fst st, snd st)"
      by (simp add: group_loop_stop)
    moreover have "slices files i = []" "drop i files = []"
      using False by (simp_all add: slices.simps)
    ultimately show ?thesis
      using False
      by (intro exI [of _ "fst st"] exI [of _ "snd st"] exI [of _ "[]"]) simp
  next
    case True
    let ?g = "take groupSize (drop i files)"
    obtain acc w where st: "st = (acc, w)" by (cases st)
    from send_group_spec [of E files i acc w]
    obtain acc1 w1 fg1 ms1 where s: "send_group E files i st = Some (acc1, w1)"
      and g1: "groups w1 = groups w @ [?g]"
      and e1: "existing w1 = existing w - {p \<in> paths ?g. \<not> unlinkRaises E p}"
      and u1: "\<forall>p. count_list (unlinked w1) p =
            count_list (unlinked w) p +
            (if p \<in> paths ?g \<and> p \<in> existing w \<and> \<not> unlinkRaises E p then 1 else 0)"
      and a1: "failedFiles acc1 = failedFiles acc @ fg1"
      and m1: "replies w1 = replies w @ ms1" "\<forall>s f n h. Summary s f n h \<notin> set ms1"
      and c1: "(\<forall>n. snd (replyResult E n) = None) \<longrightarrow>
        successCount acc1 + length (failedFiles acc1) =
          successCount acc + length (failedFiles acc) + length ?g"
      unfolding st by blast
    from 1 [OF True s]
    obtain acc' w' fg ms where
          r: "group_loop E files (i + groupSize) (acc1, w1) = Some (acc', w')"
      and g2: "groups w' = groups w1 @ slices files (i + groupSize)"
      and e2: "existing w' =
                 existing w1 - {p \<in> paths (drop (i + groupSize) files). \<not> unlinkRaises E p}"
      and u2: "\<forall>p. count_list (unlinked w') p =
            count_list (unlinked w1) p +
            (if p \<in> paths (drop (i + groupSize) files) \<and> p \<in> existing w1 \<and>
                \<not> unlinkRaises E p then 1 else 0)"
      and a2: "failedFiles acc' = failedFiles acc1 @ fg"
      and m2: "replies w' = replies w1 @ ms" "\<forall>s f n h. Summary s f n h \<notin> set ms"
      and c2: "(\<forall>n. snd (replyResult E n) = None) \<longrightarrow>
        successCount acc' + length (failedFiles acc') =
          successCount acc1 + length (failedFiles acc1) + (length files - (i + groupSize))"
      unfolding fst_conv snd_conv by blast
    have r': "group_loop E files i st = Some (acc', w')"
      using group_loop_step [OF True s] r by simp
    have "slices files i = ?g # slices files (i + groupSize)"
      using True by (subst slices.simps) simp
    then have G: "groups w' = groups (snd st) @ slices files i"
      using g1 g2 st by simp
    have P: "paths (drop i files) = paths ?g \<union> paths (drop (i + groupSize) files)"
      using True by (rule paths_drop)
    have X: "existing w' = existing (snd st) - {p \<in> paths (drop i files). \<not> unlinkRaises E p}"
      unfolding e2 e1 P st by auto
    have U: "\<forall>p. count_list (unlinked w') p =
            count_list (unlinked (snd st)) p +
            (if p \<in> paths (drop i files) \<and> p \<in> existing (snd st) \<and>
                \<not> unlinkRaises E p then 1 else 0)"
      unfolding P st using u1 u2 e1 by auto
    have A: "failedFiles acc' = failedFiles (fst st) @ (fg1 @ fg)"
      using a1 a2 st by simp
    have M: "replies w' = replies (snd st) @ (ms1 @ ms)"
      "\<forall>s f n h. Summary s f n h \<notin> set (ms1 @ ms)"
      using m1 m2 st by simp_all
    have "length ?g + (length files - (i + groupSize)) = length files - i"
      using True by (simp add: min_def)
    then have C: "(\<forall>n. snd (replyResult E n) = None) \<longrightarrow>
        successCount acc' + length (failedFiles acc') =
          successCount (fst st) + length (failedFiles (fst st)) + (length files - i)"
      using c1 c2 st by auto
    show ?thesis
      using r' G X U A M C by blast
  qed
qed


subsection \<open>The partition into groups\<close>

lemma slices_stop: "\<not> i < length xs \<Longrightarrow> slices xs i = []"
  by (subst slices.simps) simp

lemma slices_step:
  "i < length xs \<Longrightarrow> slices xs i = take groupSize (drop i xs) # slices xs (i + groupSize)"
  by (subst slices.simps) simp

lemma concat_slices: "concat (slices xs i) = drop i xs"
proof (induction xs i rule: slices.induct)
  case (1 xs i)
  show ?case
  proof (cases "i < length xs")
    case True
    have "take groupSize (drop i xs) @ drop (i + groupSize) xs = drop i xs"
      by (metis append_take_drop_id drop_drop add.commute)
    then show ?thesis
      using 1 True by (simp add: slices_step)
  next
    case False
    then show ?thesis by (simp add: slices_stop)
  qed
qed

lemma slices_sizes:
  "\<forall>g \<in> set (slices xs i). g \<noteq> [] \<and> length g \<le> 10"
proof (induction xs i rule: slices.induct)
  case (1 xs i)
  show ?case
  proof (cases "i < length xs")
    case True
    then show ?thesis
      using 1 by (simp add: slices_step groupSize_def)
  next
    case False
    then show ?thesis by (simp add: slices_stop)
  qed
qed

lemma slices_full:
  "\<forall>g \<in> set (butlast (slices xs i)). length g = 10"
proof (induction xs i rule: slices.induct)
  case (1 xs i)
  show ?case
  proof (cases "i < length xs")
    case True
    note t = True
    show ?thesis
    proof (cases "i + groupSize < length xs")
      case True
      then have "slices xs (i + groupSize) \<noteq> []"
        by (simp add: slices_step)
      then show ?thesis
        using 1 [OF t] t True by (simp add: slices_step [OF t] groupSize_def)
    next
      case False
      then show ?thesis
        using t by (simp add: slices_step [OF t] slices_stop)
    qed
  next
    case False
    then show ?thesis by (simp add: slices_stop)
  qed
qed

lemma group_count_step: "0 < (d::nat) \<Longrightarrow> Suc ((d - 10 + 9) div 10) = (d + 9) div 10"
proof (cases "d \<le> 10")
  case True
  assume "0 < d"
  then have "(d + 9) div 10 = 1" using True by simp
  then show ?thesis using True by simp
next
  case False
  then have "d + 9 = (d - 10 + 9) + 10" by simp
  then have "(d + 9) div 10 = Suc ((d - 10 + 9) div 10)"
    by (metis div_add_self2 zero_neq_numeral Suc_eq_plus1)
  then show ?thesis by simp
qed

lemma length_slices: "length (slices xs i) = (length xs - i + 9) div 10"
proof (induction xs i rule: slices.induct)
  case (1 xs i)
  show ?case
  proof (cases "i < length xs")
    case True
    then have "length (slices xs (i + groupSize)) = (length xs - i - 10 + 9) div 10"
      using 1 by (simp add: groupSize_def)
    then have "length (slices xs i) = Suc ((length xs - i - 10 + 9) div 10)"
      using True by (simp add: slices_step)
    also have "\<dots> = (length xs - i + 9) div 10"
      using True by (intro group_count_step) simp
    finally show ?thesis .
  next
    case False
    then show ?thesis by (simp add: slices_stop)
  qed
qed

lemma group_count: "nat \<lceil>rat_of_nat n / rat_of_nat groupSize\<rceil> = (n + 9) div 10"
proof -
  have "\<lceil>rat_of_nat n / rat_of_nat groupSize\<rceil> = \<lceil>rat_of_int (int n) / rat_of_int 10\<rceil>"
    by (simp add: groupSize_def)
  also have "\<dots> = - ((- int n) div 10)"
    by (simp only: ceiling_divide_eq_div)
  also have "\<dots> = int ((n + 9) div 10)"
    by (simp add: zdiv_int)
  finally show ?thesis by simp
qed


subsection \<open>The whole delivery\<close>

lemma sendFilesInGroups_spec:
  "\<exists>acc w1 w' ms t.
     group_loop E files 0 (\<lparr>successCount = 0, failedFiles = []\<rparr>, sleep 1000 w) = Some (acc, w1) \<and>
     sendFilesInGroups E files w =
       Some (case snd (replyResult E (length (replies w1))) of
               None \<Rightarrow> Inr acc | Some e \<Rightarrow> Inl e, w') \<and>
     w' = w1\<lparr>replies := replies w1 @
                [Summary (successCount acc) (length (failedFiles acc)) (length (slices files 0))
                   (failedFiles acc \<noteq> [])],
             now := t\<rparr> \<and>
     groups w1 = groups w @ slices files 0 \<and>
     existing w1 = existing w - {p \<in> paths files. \<not> unlinkRaises E p} \<and>
     (\<forall>p. count_list (unlinked w1) p =
            count_list (unlinked w) p +
            (if p \<in> paths files \<and> p \<in> existing w \<and> \<not> unlinkRaises E p then 1 else 0)) \<and>
     replies w1 = replies w @ ms \<and> (\<forall>s f n h. Summary s f n h \<notin> set ms) \<and>
     ((\<forall>n. snd (replyResult E n) = None) \<longrightarrow>
        successCount acc + length (failedFiles acc) = length files)"
proof -
  let ?st = "(\<lparr>successCount = 0, failedFiles = []\<rparr>, sleep 1000 w)"
  from group_loop_spec [of E files 0 ?st]
  obtain acc w1 fg ms where
        r: "group_loop E files 0 ?st = Some (acc, w1)"
    and g: "groups w1 = groups w @ slices files 0"
    and e: "existing w1 = existing w - {p \<in> paths files. \<not> unlinkRaises E p}"
    and u: "\<forall>p. count_list (unlinked w1) p =
            count_list (unlinked w) p +
            (if p \<in> paths files \<and> p \<in> existing w \<and> \<not> unlinkRaises E p then 1 else 0)"
    and m: "replies w1 = replies w @ ms" "\<forall>s f n h. Summary s f n h \<notin> set ms"
    and c: "(\<forall>n. snd (replyResult E n) = None) \<longrightarrow>
        successCount acc + length (failedFiles acc) = length files"
    by (auto simp: sleep_def)
  let ?msg = "Summary (successCount acc) (length (failedFiles acc)) (length (slices files 0))
                   (failedFiles acc \<noteq> [])"
  obtain t where p: "reply E ?msg w1 =
     (snd (replyResult E (length (replies w1))), w1\<lparr>replies := replies w1 @ [?msg], now := t\<rparr>)"
    using reply_frame by blast
  have n: "nat \<lceil>rat_of_nat (length files) / rat_of_nat groupSize\<rceil> = length (slices files 0)"
    by (simp add: group_count length_slices)
  have "sendFilesInGroups E files w =
       Some (case snd (replyResult E (length (replies w1))) of
               None \<Rightarrow> Inr acc | Some e \<Rightarrow> Inl e, w1\<lparr>replies := replies w1 @ [?msg], now := t\<rparr>)"
    unfolding sendFilesInGroups_def r n using p by (simp split: option.splits)
  then show ?thesis
    using r g e u m c by blast
qed


subsection \<open>The claims about the whole delivery\<close>

text \<open>
  Claim C1, amended. When no notification handed to the reply sink raises, the
  delivery returns an outcome whose success count plus number of failed files is
  the length of the input, and the groups it has processed are consecutive slices
  of the input in the original order: their concatenation is the input, each has
  between 1 and 10 entries and all but the last have 10.
\<close>

theorem C1_accounting:
  assumes "\<forall>n. snd (replyResult E n) = None"
  shows "\<exists>acc w' G.
           sendFilesInGroups E files w = Some (Inr acc, w') \<and>
           successCount acc + length (failedFiles acc) = length files \<and>
           groups w' = groups w @ G \<and> concat G = files \<and>
           (\<forall>g \<in> set G. g \<noteq> [] \<and> length g \<le> 10) \<and>
           (\<forall>g \<in> set (butlast G). length g = 10)"
proof -
  obtain acc w1 w' ms t where
        l: "group_loop E files 0 (\<lparr>successCount = 0, failedFiles = []\<rparr>, sleep 1000 w) = Some (acc, w1)"
    and s: "sendFilesInGroups E files w =
              Some (case snd (replyResult E (length (replies w1))) of
                      None \<Rightarrow> Inr acc | Some e \<Rightarrow> Inl e, w')"
    and w': "w' = w1\<lparr>replies := replies w1 @
                [Summary (successCount acc) (length (failedFiles acc)) (length (slices files 0))
                   (failedFiles acc \<noteq> [])],
             now := t\<rparr>"
    and g: "groups w1 = groups w @ slices files 0"
    and e: "existing w1 = existing w - {p \<in> paths files. \<not> unlinkRaises E p}"
    and u: "\<forall>p. count_list (unlinked w1) p =
            count_list (unlinked w) p +
            (if p \<in> paths files \<and> p \<in> existing w \<and> \<not> unlinkRaises E p then 1 else 0)"
    and m: "replies w1 = replies w @ ms"
    and nm: "\<forall>s f n h. Summary s f n h \<notin> set ms"
    and c: "(\<forall>n. snd (replyResult E n) = None) \<longrightarrow>
        successCount acc + length (failedFiles acc) = length files"
    using sendFilesInGroups_spec [of E files w] by (elim exE conjE) (rule that; assumption)
  have "sendFilesInGroups E files w = Some (Inr acc, w')"
    using s assms by simp
  moreover have "groups w' = groups w @ slices files 0"
    using g w' by simp
  moreover have "concat (slices files 0) = files"
    by (simp add: concat_slices)
  moreover have "successCount acc + length (failedFiles acc) = length files"
    using c assms by simp
  ultimately show ?thesis
    using slices_sizes [of files 0] slices_full [of files 0]
    by (intro exI [of _ acc] exI [of _ w'] exI [of _ "slices files 0"]) simp
qed

text \<open>
  The witness: eleven files, the sends of the first group all raise, that of the
  second succeeds; one file counts as sent, ten as failed.
\<close>

theorem C1_accounting_witness:
  "(\<forall>n. snd (replyResult first_group_fails_env n) = None) \<and>
   map_option (\<lambda>(r, w). (r, groups w))
     (sendFilesInGroups first_group_fails_env eleven_files (start {''a'', ''k'', ''z''})) =
   Some (Inr \<lparr>successCount = 1, failedFiles = ten_files\<rparr>,
         [ten_files, [Some \<lparr>path = ''k''\<rparr>]]) \<and>
   1 + length ten_files = length eleven_files"
proof -
  have h: "\<forall>n. snd (replyResult first_group_fails_env n) = None"
    by (simp add: first_group_fails_env_def ok_env_def)
  have v: "map_option (\<lambda>(r, w). (r, groups w))
     (sendFilesInGroups first_group_fails_env eleven_files (start {''a'', ''k'', ''z''})) =
   Some (Inr \<lparr>successCount = 1, failedFiles = ten_files\<rparr>,
         [ten_files, [Some \<lparr>path = ''k''\<rparr>]])"
    by (simp add: run_defs first_group_fails_env_def ok_env_def eleven_files_def ten_files_def)
  show ?thesis
    using C1_accounting [OF h, of eleven_files "start {''a'', ''k'', ''z''}"] h v
    by (simp add: eleven_files_def ten_files_def)
qed

text \<open>
  Claim C1 as stated fails when the progress notification raises: the only file
  is sent, counted as a success, and then appended to the failed files by the
  \<open>catch\<close> of the group. The outcome returned has 1 + 1 entries for an input of one.
\<close>

theorem C1_counterexample:
  "map_option fst
     (sendFilesInGroups reply_raises_env [Some \<lparr>path = ''a''\<rparr>] (start {''a''})) =
   Some (Inr \<lparr>successCount = 1, failedFiles = [Some \<lparr>path = ''a''\<rparr>]\<rparr>)"
  by (simp add: run_defs reply_raises_env_def ok_env_def)

text \<open>
  Claim C2, amended. Whatever the transport and the reply sink do, the delivery
  ends (it returns or rethrows), and by then, for every path of the input:
  \<open>unlinkSync\<close> has removed it exactly once if it existed before the call and its
  deletion does not raise, and never otherwise; it exists afterwards only if it
  existed before and its deletion raises. No other path is touched.
\<close>

theorem C2_cleanup:
  "\<exists>res w'.
     sendFilesInGroups E files w = Some (res, w') \<and>
     existing w' = existing w - {p \<in> paths files. \<not> unlinkRaises E p} \<and>
     (\<forall>p. count_list (unlinked w') p =
            count_list (unlinked w) p +
            (if p \<in> paths files \<and> p \<in> existing w \<and> \<not> unlinkRaises E p then 1 else 0))"
proof -
  obtain acc w1 w' ms t where
        l: "group_loop E files 0 (\<lparr>successCount = 0, failedFiles = []\<rparr>, sleep 1000 w) = Some (acc, w1)"
    and s: "sendFilesInGroups E files w =
              Some (case snd (replyResult E (length (replies w1))) of
                      None \<Rightarrow> Inr acc | Some e \<Rightarrow> Inl e, w')"
    and w': "w' = w1\<lparr>replies := replies w1 @
                [Summary (successCount acc) (length (failedFiles acc)) (length (slices files 0))
                   (failedFiles acc \<noteq> [])],
             now := t\<rparr>"
    and g: "groups w1 = groups w @ slices files 0"
    and e: "existing w1 = existing w - {p \<in> paths files. \<not> unlinkRaises E p}"
    and u: "\<forall>p. count_list (unlinked w1) p =
            count_list (unlinked w) p +
            (if p \<in> paths files \<and> p \<in> existing w \<and> \<not> unlinkRaises E p then 1 else 0)"
    and m: "replies w1 = replies w @ ms"
    and nm: "\<forall>s f n h. Summary s f n h \<notin> set ms"
    and c: "(\<forall>n. snd (replyResult E n) = None) \<longrightarrow>
        successCount acc + length (failedFiles acc) = length files"
    using sendFilesInGroups_spec [of E files w] by (elim exE conjE) (rule that; assumption)
  have "existing w' = existing w1" "unlinked w' = unlinked w1"
    using w' by simp_all
  then show ?thesis
    using s e u
    by (intro exI [of _ "case snd (replyResult E (length (replies w1))) of
                      None \<Rightarrow> Inr acc | Some e \<Rightarrow> Inl e"] exI [of _ w']) simp
qed

text \<open>
  The witness: \<open>a\<close> is listed twice and exists, \<open>b\<close> is missing, one entry is null.
  \<open>a\<close> is removed once, at its first occurrence; \<open>k\<close>, which is not in the list, stays.
\<close>

theorem C2_cleanup_witness:
  "map_option (\<lambda>(r, w). (existing w, unlinked w))
     (sendFilesInGroups ok_env
        [Some \<lparr>path = ''a''\<rparr>, Some \<lparr>path = ''b''\<rparr>, None, Some \<lparr>path = ''a''\<rparr>]
        (start {''a'', ''k''})) =
   Some ({''k''}, [''a''])"
proof -
  have v: "map_option (\<lambda>(r, w). (existing w, unlinked w))
     (sendFilesInGroups ok_env
        [Some \<lparr>path = ''a''\<rparr>, Some \<lparr>path = ''b''\<rparr>, None, Some \<lparr>path = ''a''\<rparr>]
        (start {''a'', ''k''})) =
   Some ({''k''}, [''a''])"
    by (simp add: run_defs ok_env_def)
  show ?thesis
    using C2_cleanup [of ok_env
        "[Some \<lparr>path = ''a''\<rparr>, Some \<lparr>path = ''b''\<rparr>, None, Some \<lparr>path = ''a''\<rparr>]"
        "start {''a'', ''k''}"] v
    by simp
qed

text \<open>
  Claim C2 as stated fails when \<open>unlinkSync\<close> raises: the error is logged and
  dropped, the delivery returns, and the file is still in storage.
\<close>

theorem C2_counterexample:
  "map_option (\<lambda>(r, w). (r, existing w, unlinked w))
     (sendFilesInGroups unlink_raises_env [Some \<lparr>path = ''a''\<rparr>] (start {''a''})) =
   Some (Inr \<lparr>successCount = 1, failedFiles = []\<rparr>, {''a''}, [])"
  by (simp add: run_defs unlink_raises_env_def ok_env_def)

text \<open>
  Claim C8, amended. For the empty list no group is processed, nothing is sent or
  deleted, and exactly one notification is handed to the reply sink: the summary
  with 0 sent, 0 failed, 0 groups and no hint. The delivery returns the outcome
  \<open>(0, [])\<close> unless the reply sink raises on that summary; then it rethrows the error.
\<close>

theorem C8_empty_list:
  "\<exists>w'. sendFilesInGroups E [] w =
           Some (case snd (replyResult E (length (replies w))) of
                   None \<Rightarrow> Inr \<lparr>successCount = 0, failedFiles = []\<rparr>
                 | Some e \<Rightarrow> Inl e, w') \<and>
         groups w' = groups w \<and> replies w' = replies w @ [Summary 0 0 0 False] \<and>
         sendCalls w' = sendCalls w \<and> existing w' = existing w \<and> unlinked w' = unlinked w"
proof -
  have g: "group_loop E [] 0 (\<lparr>successCount = 0, failedFiles = []\<rparr>, sleep 1000 w) =
             Some (\<lparr>successCount = 0, failedFiles = []\<rparr>, sleep 1000 w)"
    by (simp add: group_loop_stop)
  show ?thesis
    unfolding sendFilesInGroups_def g
    by (cases "replyResult E (length (replies w))"; cases "snd (replyResult E (length (replies w)))")
       (simp_all add: reply_def sleep_def group_count)
qed

text \<open>
  The witness: a reply sink that does not raise.
\<close>

theorem C8_empty_list_witness:
  "map_option (\<lambda>(r, w). (r, replies w, groups w)) (sendFilesInGroups ok_env [] (start {})) =
   Some (Inr \<lparr>successCount = 0, failedFiles = []\<rparr>, [Summary 0 0 0 False], [])"
proof -
  have "replyResult ok_env 0 = (0, None)" "replies (start {}) = []" "groups (start {}) = []"
    by (simp_all add: ok_env_def start_def)
  then show ?thesis
    using C8_empty_list [of ok_env "start {}"] by auto
qed

text \<open>
  Claim C8 as stated fails when the reply sink raises on the summary: no outcome
  is returned.
\<close>

theorem C8_counterexample:
  "map_option fst (sendFilesInGroups reply_raises_env [] (start {})) = Some (Inl (ApiError 0))"
  by (simp add: run_defs reply_raises_env_def ok_env_def)


subsection \<open>The ways in which a group fails\<close>

lemma ceiling_unit_fraction: "\<lceil>(1::rat) / numeral b\<rceil> = 1"
  by (simp add: ceiling_eq_iff)


lemma retry_loop_frame:
  assumes "retry_loop E c b w = Some (success, w1)"
  shows "existing w1 = existing w \<and> replies w1 = replies w \<and> unlinked w1 = unlinked w \<and>
         groups w1 = groups w"
proof -
  obtain success' w' n where
        r: "retry_loop E c b w = Some (success', w')"
    and "retryWaits w' = retryWaits w @
           map (\<lambda>i. b * (3 / 2) ^ Suc i + retryRandom E (draws w + i) * 1000) [0..<n]"
    and "draws w' = draws w + n"
    and "issued (rateLimiter w') = issued (rateLimiter w) + (if success' then Suc n else n)"
    and "success' \<longrightarrow> c + n < 5" and "\<not> success' \<longrightarrow> c + n = max c 5"
    and f: "existing w' = existing w" "replies w' = replies w" "unlinked w' = unlinked w"
      "groups w' = groups w"
    using retry_loop_spec [of E c b w] by (elim exE conjE) (rule that; assumption)
  show ?thesis
    using assms r f by simp
qed

lemma try_group_unbuilt:
  "mediaGroup_of g = Inl e \<Longrightarrow>
   try_group E files i g (acc, w) = Some (acc\<lparr>failedFiles := failedFiles acc @ g\<rparr>, w)"
  by (simp add: try_group_def)

lemma try_group_progress_raises:
  assumes "mediaGroup_of g = Inr mg" and "retry_loop E 0 3000 w = Some (True, w1)"
    and "(successCount acc + length g) mod 30 = 0 \<or> length files \<le> i + 10"
    and "snd (replyResult E (length (replies w1))) = Some e"
  shows "\<exists>t. try_group E files i g (acc, w) =
           Some (acc\<lparr>successCount := successCount acc + length g,
                     failedFiles := failedFiles acc @ g\<rparr>,
                 w1\<lparr>replies := replies w1 @ [Progress (successCount acc + length g) (length files)],
                    now := t\<rparr>)"
proof -
  obtain t where "reply E (Progress (successCount acc + length g) (length files)) w1 =
     (Some e, w1\<lparr>replies := replies w1 @ [Progress (successCount acc + length g) (length files)],
                now := t\<rparr>)"
    using reply_frame [of E "Progress (successCount acc + length g) (length files)" w1] assms(4)
    by auto
  then show ?thesis
    using assms(1,2,3) by (auto simp: try_group_def Let_def groupSize_def)
qed

lemma try_group_exhausted:
  assumes "mediaGroup_of g = Inr mg" and "retry_loop E 0 3000 w = Some (False, w1)"
  shows "\<exists>t. try_group E files i g (acc, w) =
           Some (acc\<lparr>failedFiles :=
                      failedFiles acc @ g @
                      (if snd (replyResult E (length (replies w1))) = None then [] else g)\<rparr>,
                 w1\<lparr>replies := replies w1 @ [GroupFailed (i div 10 + 1)], now := t\<rparr>)"
proof -
  obtain t where "reply E (GroupFailed (i div 10 + 1)) w1 =
     (snd (replyResult E (length (replies w1))),
      w1\<lparr>replies := replies w1 @ [GroupFailed (i div 10 + 1)], now := t\<rparr>)"
    using reply_frame by blast
  then show ?thesis
    using assms
    by (cases "snd (replyResult E (length (replies w1)))")
       (auto simp: try_group_def Let_def groupSize_def)
qed

lemma send_group_after_try:
  "try_group E files i (take groupSize (drop i files)) st = Some (acc', w1) \<Longrightarrow>
   send_group E files i st =
     Some (acc', sleep 3000 ((cleanup E (take groupSize (drop i files)) w1)
                   \<lparr>groups := groups w1 @ [take groupSize (drop i files)]\<rparr>))"
  by (simp add: send_group_def Let_def)


text \<open>
  Claim C9. The media batch of a group is built, its send is resolved within the
  retry loop, the progress notification is due (the success count is a multiple
  of 30 or the group is the last) and the reply sink raises on it. Then the group
  has been added to the success count and its files are also appended to the
  failed files.
\<close>

theorem C9_counted_twice:
  assumes "mediaGroup_of g = Inr mg" and "retry_loop E 0 3000 w = Some (True, w1)"
    and "(successCount acc + length g) mod 30 = 0 \<or> length files \<le> i + 10"
    and "snd (replyResult E (length (replies w1))) = Some e"
  shows "\<exists>w2. try_group E files i g (acc, w) =
           Some (acc\<lparr>successCount := successCount acc + length g,
                     failedFiles := failedFiles acc @ g\<rparr>, w2) \<and>
         replies w2 = replies w1 @ [Progress (successCount acc + length g) (length files)]"
proof -
  from try_group_progress_raises [OF assms]
  obtain t where "try_group E files i g (acc, w) =
           Some (acc\<lparr>successCount := successCount acc + length g,
                     failedFiles := failedFiles acc @ g\<rparr>,
                 w1\<lparr>replies := replies w1 @ [Progress (successCount acc + length g) (length files)],
                    now := t\<rparr>)" ..
  then show ?thesis by simp
qed

text \<open>
  The witness: one file, a reply sink whose first notification raises. The
  outcome returned counts the file as sent and lists it as failed.
\<close>

theorem C9_counted_twice_witness:
  "mediaGroup_of [Some \<lparr>path = ''a''\<rparr>] = Inr [''a''] \<and>
   map_option fst (retry_loop reply_raises_env 0 3000 (start {''a''})) = Some True \<and>
   length [Some \<lparr>path = ''a''\<rparr>] \<le> 0 + (10::nat) \<and>
   snd (replyResult reply_raises_env 0) = Some (ApiError 0) \<and>
   map_option fst
     (try_group reply_raises_env [Some \<lparr>path = ''a''\<rparr>] 0 [Some \<lparr>path = ''a''\<rparr>]
        (\<lparr>successCount = 0, failedFiles = []\<rparr>, start {''a''})) =
   Some \<lparr>successCount = 1, failedFiles = [Some \<lparr>path = ''a''\<rparr>]\<rparr> \<and>
   map_option (\<lambda>(r, w). (r, replies w))
     (sendFilesInGroups reply_raises_env [Some \<lparr>path = ''a''\<rparr>] (start {''a''})) =
   Some (Inr \<lparr>successCount = 1, failedFiles = [Some \<lparr>path = ''a''\<rparr>]\<rparr>,
         [Progress 1 1, Summary 1 1 1 True])"
proof -
  let ?E = reply_raises_env
  let ?g = "[Some \<lparr>path = ''a''\<rparr>]"
  let ?acc = "\<lparr>successCount = 0, failedFiles = []\<rparr>"
  let ?w1 = "snd (the (retry_loop ?E 0 3000 (start {''a''})))"
  have m: "mediaGroup_of ?g = Inr [''a'']"
    by simp
  have v: "map_option (\<lambda>(s, w). (s, replies w)) (retry_loop ?E 0 3000 (start {''a''})) =
             Some (True, [])"
    by (simp add: run_defs reply_raises_env_def ok_env_def)
  then have r: "retry_loop ?E 0 3000 (start {''a''}) = Some (True, ?w1)"
    and l: "replies ?w1 = []"
    by (cases "retry_loop ?E 0 3000 (start {''a''})"; auto)+
  have d: "(successCount ?acc + length ?g) mod 30 = 0 \<or> length ?g \<le> 0 + 10"
    by simp
  have e: "snd (replyResult ?E (length (replies ?w1))) = Some (ApiError 0)"
    unfolding l by (simp add: reply_raises_env_def ok_env_def)
  have whole: "map_option (\<lambda>(r, w). (r, replies w))
     (sendFilesInGroups ?E ?g (start {''a''})) =
   Some (Inr \<lparr>successCount = 1, failedFiles = ?g\<rparr>, [Progress 1 1, Summary 1 1 1 True])"
    by (simp add: run_defs ceiling_unit_fraction reply_raises_env_def ok_env_def)
  show ?thesis
    using C9_counted_twice [OF m r d e] m v e l whole
    by auto
qed

lemma group_fails_outside_retry:
  assumes "g = take groupSize (drop i files)"
    and "mediaGroup_of g = Inl e \<or>
         (mediaGroup_of g = Inr mg \<and> retry_loop E 0 3000 w = Some (True, w1) \<and>
          ((successCount acc + length g) mod 30 = 0 \<or> length files \<le> i + 10) \<and>
          snd (replyResult E (length (replies w1))) = Some e')"
  shows "\<exists>acc' w' ms.
           send_group E files i (acc, w) = Some (acc', w') \<and>
           failedFiles acc' = failedFiles acc @ g \<and>
           existing w' = existing w - {p \<in> paths g. \<not> unlinkRaises E p} \<and>
           groups w' = groups w @ [g] \<and>
           replies w' = replies w @ ms \<and> (\<forall>n. GroupFailed n \<notin> set ms)"
  using assms(2)
proof
  assume "mediaGroup_of g = Inl e"
  then have "try_group E files i g (acc, w) = Some (acc\<lparr>failedFiles := failedFiles acc @ g\<rparr>, w)"
    by (rule try_group_unbuilt)
  then have "send_group E files i (acc, w) =
     Some (acc\<lparr>failedFiles := failedFiles acc @ g\<rparr>,
           sleep 3000 ((cleanup E g w)\<lparr>groups := groups w @ [g]\<rparr>))"
    unfolding assms(1) by (rule send_group_after_try)
  then show ?thesis
    by (intro exI [of _ "acc\<lparr>failedFiles := failedFiles acc @ g\<rparr>"]
              exI [of _ "sleep 3000 ((cleanup E g w)\<lparr>groups := groups w @ [g]\<rparr>)"]
              exI [of _ "[]"])
       (simp add: sleep_def cleanup_existing cleanup_other)
next
  assume a: "mediaGroup_of g = Inr mg \<and> retry_loop E 0 3000 w = Some (True, w1) \<and>
          ((successCount acc + length g) mod 30 = 0 \<or> length files \<le> i + 10) \<and>
          snd (replyResult E (length (replies w1))) = Some e'"
  let ?acc = "acc\<lparr>successCount := successCount acc + length g,
                   failedFiles := failedFiles acc @ g\<rparr>"
  let ?msg = "Progress (successCount acc + length g) (length files)"
  have "\<exists>t. try_group E files i g (acc, w) =
      Some (?acc, w1\<lparr>replies := replies w1 @ [?msg], now := t\<rparr>)"
    using a by (intro try_group_progress_raises [where mg = mg and e = e']) simp_all
  then obtain t where y: "try_group E files i g (acc, w) =
      Some (?acc, w1\<lparr>replies := replies w1 @ [?msg], now := t\<rparr>)" ..
  let ?w2 = "w1\<lparr>replies := replies w1 @ [?msg], now := t\<rparr>"
  let ?w' = "sleep 3000 ((cleanup E g ?w2)\<lparr>groups := groups ?w2 @ [g]\<rparr>)"
  have s: "send_group E files i (acc, w) = Some (?acc, ?w')"
    using y unfolding assms(1) by (rule send_group_after_try)
  have f: "existing w1 = existing w" "replies w1 = replies w" "groups w1 = groups w"
    using a retry_loop_frame [of E 0 3000 w True w1] by simp_all
  show ?thesis
    using s f
    by (intro exI [of _ ?acc] exI [of _ ?w'] exI [of _ "[?msg]"])
       (simp add: sleep_def cleanup_existing cleanup_other)
qed

lemma group_failure_notice_raises:
  assumes "g = take groupSize (drop i files)"
    and "mediaGroup_of g = Inr mg" and "retry_loop E 0 3000 w = Some (False, w1)"
    and "snd (replyResult E (length (replies w1))) = Some e'"
  shows "\<exists>acc' w'.
           send_group E files i (acc, w) = Some (acc', w') \<and>
           successCount acc' = successCount acc \<and>
           failedFiles acc' = failedFiles acc @ g @ g \<and>
           existing w' = existing w - {p \<in> paths g. \<not> unlinkRaises E p} \<and>
           groups w' = groups w @ [g] \<and>
           replies w' = replies w @ [GroupFailed (i div 10 + 1)]"
proof -
  let ?acc = "acc\<lparr>failedFiles := failedFiles acc @ g @ g\<rparr>"
  let ?msg = "GroupFailed (i div 10 + 1)"
  from try_group_exhausted [OF assms(2,3), of files i acc]
  obtain t where y: "try_group E files i g (acc, w) =
      Some (?acc, w1\<lparr>replies := replies w1 @ [?msg], now := t\<rparr>)"
    using assms(4) by auto
  let ?w2 = "w1\<lparr>replies := replies w1 @ [?msg], now := t\<rparr>"
  let ?w' = "sleep 3000 ((cleanup E g ?w2)\<lparr>groups := groups ?w2 @ [g]\<rparr>)"
  have s: "send_group E files i (acc, w) = Some (?acc, ?w')"
    using y unfolding assms(1) by (rule send_group_after_try)
  have f: "existing w1 = existing w" "replies w1 = replies w" "groups w1 = groups w"
    using assms(3) retry_loop_frame [of E 0 3000 w False w1] by simp_all
  show ?thesis
    using s f
    by (intro exI [of _ ?acc] exI [of _ ?w'])
       (simp add: sleep_def cleanup_existing cleanup_other)
qed

text \<open>
  Claim C10, amended. A group fails outside its retry loop because building its
  media batch raises, or because its send succeeds and the progress notification
  raises: then its files are appended to the failed files once, the cleanup of the
  group runs (every path of the group whose deletion does not raise is gone) and
  the group is completed, and no failure notification is handed to the reply sink
  for it (the notifications of this iteration contain no \<open>GroupFailed\<close>). When
  instead the retry loop is exhausted and it is the failure notification that
  raises, the failure notification naming the group has been handed to the reply
  sink; the files of the group are appended to the failed files twice (by the
  failure branch and again by the \<open>catch\<close> of the group), nothing is added to the
  success count, and the cleanup runs all the same.
\<close>

theorem C10_failure_outside_retry_loop:
  assumes "g = take groupSize (drop i files)"
  shows "(mediaGroup_of g = Inl e \<or>
          (mediaGroup_of g = Inr mg \<and> retry_loop E 0 3000 w = Some (True, w1) \<and>
           ((successCount acc + length g) mod 30 = 0 \<or> length files \<le> i + 10) \<and>
           snd (replyResult E (length (replies w1))) = Some e') \<longrightarrow>
          (\<exists>acc' w' ms.
             send_group E files i (acc, w) = Some (acc', w') \<and>
             failedFiles acc' = failedFiles acc @ g \<and>
             existing w' = existing w - {p \<in> paths g. \<not> unlinkRaises E p} \<and>
             groups w' = groups w @ [g] \<and>
             replies w' = replies w @ ms \<and> (\<forall>n. GroupFailed n \<notin> set ms))) \<and>
         (mediaGroup_of g = Inr mg \<and> retry_loop E 0 3000 w = Some (False, w1) \<and>
          snd (replyResult E (length (replies w1))) = Some e' \<longrightarrow>
          (\<exists>acc' w'.
             send_group E files i (acc, w) = Some (acc', w') \<and>
             successCount acc' = successCount acc \<and>
             failedFiles acc' = failedFiles acc @ g @ g \<and>
             existing w' = existing w - {p \<in> paths g. \<not> unlinkRaises E p} \<and>
             groups w' = groups w @ [g] \<and>
             replies w' = replies w @ [GroupFailed (i div 10 + 1)]))"
proof (intro conjI impI)
  assume "mediaGroup_of g = Inl e \<or>
          (mediaGroup_of g = Inr mg \<and> retry_loop E 0 3000 w = Some (True, w1) \<and>
           ((successCount acc + length g) mod 30 = 0 \<or> length files \<le> i + 10) \<and>
           snd (replyResult E (length (replies w1))) = Some e')"
  with assms show "\<exists>acc' w' ms.
             send_group E files i (acc, w) = Some (acc', w') \<and>
             failedFiles acc' = failedFiles acc @ g \<and>
             existing w' = existing w - {p \<in> paths g. \<not> unlinkRaises E p} \<and>
             groups w' = groups w @ [g] \<and>
             replies w' = replies w @ ms \<and> (\<forall>n. GroupFailed n \<notin> set ms)"
    by (rule group_fails_outside_retry)
next
  assume "mediaGroup_of g = Inr mg \<and> retry_loop E 0 3000 w = Some (False, w1) \<and>
          snd (replyResult E (length (replies w1))) = Some e'"
  then show "\<exists>acc' w'.
             send_group E files i (acc, w) = Some (acc', w') \<and>
             successCount acc' = successCount acc \<and>
             failedFiles acc' = failedFiles acc @ g @ g \<and>
             existing w' = existing w - {p \<in> paths g. \<not> unlinkRaises E p} \<and>
             groups w' = groups w @ [g] \<and>
             replies w' = replies w @ [GroupFailed (i div 10 + 1)]"
    using assms by (intro group_failure_notice_raises [where mg = mg and ?w1.0 = w1 and e' = e']) simp_all
qed

text \<open>
  The witness: a group with a null entry, whose media batch cannot be built; a
  group of one file whose progress notification raises; and a group of one file
  whose sends all raise and whose failure notification raises.
\<close>

theorem C10_failure_outside_retry_loop_witness:
  "[None, Some \<lparr>path = ''a''\<rparr>] = take groupSize (drop 0 [None, Some \<lparr>path = ''a''\<rparr>]) \<and>
   mediaGroup_of [None, Some \<lparr>path = ''a''\<rparr>] = Inl TypeError \<and>
   map_option (\<lambda>(acc, w). (acc, existing w, groups w, replies w))
     (send_group ok_env [None, Some \<lparr>path = ''a''\<rparr>] 0
        (\<lparr>successCount = 0, failedFiles = []\<rparr>, start {''a''})) =
   Some (\<lparr>successCount = 0, failedFiles = [None, Some \<lparr>path = ''a''\<rparr>]\<rparr>, {},
         [[None, Some \<lparr>path = ''a''\<rparr>]], []) \<and>
   map_option (\<lambda>(r, w). (r, replies w))
     (sendFilesInGroups ok_env [None, Some \<lparr>path = ''a''\<rparr>] (start {''a''})) =
   Some (Inr \<lparr>successCount = 0, failedFiles = [None, Some \<lparr>path = ''a''\<rparr>]\<rparr>,
         [Summary 0 2 1 True]) \<and>
   [Some \<lparr>path = ''a''\<rparr>] = take groupSize (drop 0 [Some \<lparr>path = ''a''\<rparr>]) \<and>
   mediaGroup_of [Some \<lparr>path = ''a''\<rparr>] = Inr [''a''] \<and>
   map_option fst (retry_loop reply_raises_env 0 3000 (start {''a''})) = Some True \<and>
   snd (replyResult reply_raises_env 0) = Some (ApiError 0) \<and>
   map_option (\<lambda>(acc, w). (acc, existing w, groups w, replies w))
     (send_group reply_raises_env [Some \<lparr>path = ''a''\<rparr>] 0
        (\<lparr>successCount = 0, failedFiles = []\<rparr>, start {''a''})) =
   Some (\<lparr>successCount = 1, failedFiles = [Some \<lparr>path = ''a''\<rparr>]\<rparr>, {},
         [[Some \<lparr>path = ''a''\<rparr>]], [Progress 1 1]) \<and>
   map_option fst (retry_loop failing_reply_raises_env 0 3000 (start {''a''})) = Some False \<and>
   snd (replyResult failing_reply_raises_env 0) = Some (ApiError 0) \<and>
   map_option (\<lambda>(acc, w). (acc, existing w, groups w, replies w))
     (send_group failing_reply_raises_env [Some \<lparr>path = ''a''\<rparr>] 0
        (\<lparr>successCount = 0, failedFiles = []\<rparr>, start {''a''})) =
   Some (\<lparr>successCount = 0, failedFiles = [Some \<lparr>path = ''a''\<rparr>, Some \<lparr>path = ''a''\<rparr>]\<rparr>, {},
         [[Some \<lparr>path = ''a''\<rparr>]], [GroupFailed 1])"
proof -
  let ?E = reply_raises_env
  let ?F = failing_reply_raises_env
  let ?f = "[Some \<lparr>path = ''a''\<rparr>]"
  let ?g = "[None, Some \<lparr>path = ''a''\<rparr>]"
  let ?acc = "\<lparr>successCount = 0, failedFiles = []\<rparr>"
  let ?w1 = "snd (the (retry_loop ?E 0 3000 (start {''a''})))"
  let ?w3 = "snd (the (retry_loop ?F 0 3000 (start {''a''})))"
  have t1: "?g = take groupSize (drop 0 ?g)" and t2: "?f = take groupSize (drop 0 ?f)"
    by (simp_all add: groupSize_def)
  have m1: "mediaGroup_of ?g = Inl TypeError" and m2: "mediaGroup_of ?f = Inr [''a'']"
    by simp_all
  have v2: "map_option (\<lambda>(s, w). (s, replies w)) (retry_loop ?E 0 3000 (start {''a''})) =
             Some (True, [])"
    by (simp add: run_defs reply_raises_env_def ok_env_def)
  then have r2: "retry_loop ?E 0 3000 (start {''a''}) = Some (True, ?w1)"
    and l2: "replies ?w1 = []"
    by (cases "retry_loop ?E 0 3000 (start {''a''})"; auto)+
  have e2: "snd (replyResult ?E (length (replies ?w1))) = Some (ApiError 0)"
    unfolding l2 by (simp add: reply_raises_env_def ok_env_def)
  have v3: "map_option (\<lambda>(s, w). (s, replies w)) (retry_loop ?F 0 3000 (start {''a''})) =
             Some (False, [])"
    by (simp add: run_defs failing_reply_raises_env_def failing_env_def)
  then have r3: "retry_loop ?F 0 3000 (start {''a''}) = Some (False, ?w3)"
    and l3: "replies ?w3 = []"
    by (cases "retry_loop ?F 0 3000 (start {''a''})"; auto)+
  have e3: "snd (replyResult ?F (length (replies ?w3))) = Some (ApiError 0)"
    unfolding l3 by (simp add: failing_reply_raises_env_def failing_env_def)
  have s1: "map_option (\<lambda>(acc, w). (acc, existing w, groups w, replies w))
     (send_group ok_env ?g 0 (?acc, start {''a''})) =
   Some (\<lparr>successCount = 0, failedFiles = ?g\<rparr>, {}, [?g], [])"
    by (simp add: run_defs ok_env_def)
  have whole: "map_option (\<lambda>(r, w). (r, replies w))
     (sendFilesInGroups ok_env ?g (start {''a''})) =
   Some (Inr \<lparr>successCount = 0, failedFiles = ?g\<rparr>, [Summary 0 2 1 True])"
    by (simp add: run_defs ceiling_unit_fraction ok_env_def)
  have s2: "map_option (\<lambda>(acc, w). (acc, existing w, groups w, replies w))
     (send_group ?E ?f 0 (?acc, start {''a''})) =
   Some (\<lparr>successCount = 1, failedFiles = ?f\<rparr>, {}, [?f], [Progress 1 1])"
    by (simp add: run_defs reply_raises_env_def ok_env_def)
  have s3: "map_option (\<lambda>(acc, w). (acc, existing w, groups w, replies w))
     (send_group ?F ?f 0 (?acc, start {''a''})) =
   Some (\<lparr>successCount = 0, failedFiles = ?f @ ?f\<rparr>, {}, [?f], [GroupFailed 1])"
    by (simp add: run_defs failing_reply_raises_env_def failing_env_def)
  note i1 = C10_failure_outside_retry_loop
      [OF t1, where e = TypeError and E = ok_env and w = "start {''a''}" and acc = ?acc]
  note i2 = C10_failure_outside_retry_loop
      [OF t2, where mg = "[''a'']" and E = ?E and w = "start {''a''}" and ?w1.0 = ?w1
         and acc = ?acc and e' = "ApiError 0"]
  note i3 = C10_failure_outside_retry_loop
      [OF t2, where mg = "[''a'']" and E = ?F and w = "start {''a''}" and ?w1.0 = ?w3
         and acc = ?acc and e' = "ApiError 0"]
  show ?thesis
    using i1 i2 i3 t1 t2 m1 m2 v2 e2 l2 v3 e3 l3 s1 s2 s3 whole
    by auto
qed

text \<open>
  Claim C10 as stated fails when the error outside the retry loop is raised by
  the failure notification: every send of the only group raises, the failure
  notification for group 1 is handed to the reply sink and raises, and the \<open>catch\<close>
  of the group appends the file again. A failure notification naming the group
  was emitted.
\<close>

theorem C10_counterexample:
  "mediaGroup_of [Some \<lparr>path = ''a''\<rparr>] = Inr [''a''] \<and>
   map_option (\<lambda>(s, w). (s, replies w))
     (retry_loop failing_reply_raises_env 0 3000 (sleep 1000 (start {''a''}))) = Some (False, []) \<and>
   replyResult failing_reply_raises_env 0 = (0, Some (ApiError 0)) \<and>
   map_option (\<lambda>(r, w). (r, replies w, existing w))
     (sendFilesInGroups failing_reply_raises_env [Some \<lparr>path = ''a''\<rparr>] (start {''a''})) =
   Some (Inr \<lparr>successCount = 0,
              failedFiles = [Some \<lparr>path = ''a''\<rparr>, Some \<lparr>path = ''a''\<rparr>]\<rparr>,
         [GroupFailed 1, Summary 0 2 1 True], {})"
  by (simp add: run_defs ceiling_unit_fraction failing_reply_raises_env_def failing_env_def)





end
